theory Spec2Isabelle
  imports Complex_Main "HOL-Library.Multiset" "HOL-Library.AList" "HOL-Library.List_Lexorder" "HOL-Library.Char_ord" "HOL-Library.Sublist"
begin

section \<open>JavaScript values\<close>

text \<open>
  The data processor works on JSON-like JavaScript values.  A number is the exact value of
  the double it stands for (a rational), or one of the three special values; negative zero
  is identified with zero, which no operation of the processor distinguishes.  A function
  value is an index into the host's table of functions.  An object is the list of its own
  enumerable properties in enumeration order; members inherited from the built-in
  prototypes are not part of the model.  A string is a list of characters, one per code unit.
\<close>

datatype jsnum = Fin rat | PosInf | NegInf | NaN

datatype jsval =
    JUndefined
  | JNull
  | JBool bool
  | JNum jsnum
  | JStr string
  | JFun nat
  | JArr "jsval list"
  | JObj "(string \<times> jsval) list"

datatype jserror = Error string | TypeError

fun message :: "jserror \<Rightarrow> string" where
  "message (Error m) = m"
| "message TypeError = ''TypeError''"

definition num :: "nat \<Rightarrow> jsval" where
  "num n = JNum (Fin (of_nat n))"

fun truthy :: "jsval \<Rightarrow> bool" where
  "truthy JUndefined = False"
| "truthy JNull = False"
| "truthy (JBool b) = b"
| "truthy (JNum n) = (n \<noteq> Fin 0 \<and> n \<noteq> NaN)"
| "truthy (JStr s) = (s \<noteq> [])"
| "truthy (JFun f) = True"
| "truthy (JArr xs) = True"
| "truthy (JObj kvs) = True"

fun typeof :: "jsval \<Rightarrow> string" where
  "typeof JUndefined = ''undefined''"
| "typeof JNull = ''object''"
| "typeof (JBool b) = ''boolean''"
| "typeof (JNum n) = ''number''"
| "typeof (JStr s) = ''string''"
| "typeof (JFun f) = ''function''"
| "typeof (JArr xs) = ''object''"
| "typeof (JObj kvs) = ''object''"

fun isArray :: "jsval \<Rightarrow> bool" where
  "isArray (JArr xs) = True"
| "isArray v = False"

subsection \<open>Decimal indices\<close>

definition digit_char :: "nat \<Rightarrow> char" where
  "digit_char d = ''0123456789'' ! d"

function nat_to_string :: "nat \<Rightarrow> string" where
  "nat_to_string n = (if n < 10 then [digit_char n] else nat_to_string (n div 10) @ [digit_char (n mod 10)])"
  by pat_completeness auto
termination
  by (relation "measure id") auto

declare nat_to_string.simps [simp del]

definition digit_val :: "char \<Rightarrow> nat option" where
  "digit_val c = map_of (zip ''0123456789'' [0, 1, 2, 3, 4, 5, 6, 7, 8, 9]) c"

fun digits_val :: "nat \<Rightarrow> string \<Rightarrow> nat option" where
  "digits_val acc [] = Some acc"
| "digits_val acc (c # cs) = (case digit_val c of None \<Rightarrow> None | Some d \<Rightarrow> digits_val (10 * acc + d) cs)"

text \<open>An array index in canonical form: decimal digits without a leading zero.\<close>

definition parse_index :: "string \<Rightarrow> nat option" where
  "parse_index k =
     (if k = [] then None
      else if hd k = CHR ''0'' \<and> tl k \<noteq> [] then None
      else digits_val 0 k)"

subsection \<open>Property access\<close>

text \<open>\<open>v[key]\<close> for a value that is neither \<open>null\<close> nor \<open>undefined\<close>.\<close>

fun member :: "jsval \<Rightarrow> string \<Rightarrow> jsval" where
  "member (JObj kvs) k = (case map_of kvs k of Some v \<Rightarrow> v | None \<Rightarrow> JUndefined)"
| "member (JArr xs) k =
     (if k = ''length'' then num (length xs)
      else (case parse_index k of
              Some i \<Rightarrow> if i < length xs then xs ! i else JUndefined
            | None \<Rightarrow> JUndefined))"
| "member (JStr s) k =
     (if k = ''length'' then num (length s)
      else (case parse_index k of
              Some i \<Rightarrow> if i < length s then JStr [s ! i] else JUndefined
            | None \<Rightarrow> JUndefined))"
| "member v k = JUndefined"

text \<open>\<open>v[key]\<close> in general: reading a property of \<open>null\<close> or \<open>undefined\<close> throws.\<close>

fun js_get :: "jsval \<Rightarrow> string \<Rightarrow> jserror + jsval" where
  "js_get JUndefined k = Inl TypeError"
| "js_get JNull k = Inl TypeError"
| "js_get v k = Inr (member v k)"

section \<open>FunctionalUtils\<close>

text \<open>\<open>path.split('.')\<close>\<close>

fun split_on :: "char \<Rightarrow> string \<Rightarrow> string list" where
  "split_on c [] = [[]]"
| "split_on c (x # xs) =
     (if x = c then [] # split_on c xs
      else (case split_on c xs of w # ws \<Rightarrow> (x # w) # ws | [] \<Rightarrow> [[x]]))"

definition getNestedProperty :: "jsval \<Rightarrow> string \<Rightarrow> jsval \<Rightarrow> jsval" where
  "getNestedProperty obj path defaultValue =
     foldl (\<lambda>current key.
              if truthy current \<and> member current key \<noteq> JUndefined
              then member current key else defaultValue)
       obj (split_on CHR ''.'' path)"


section \<open>BaseRule: shared matching logic\<close>

text \<open>
  \<open>===\<close> on values of the model.  Two numbers are identical when they have the same value,
  except that \<open>NaN\<close> differs from itself; two function values are identical when they are the
  same function.  Arrays and objects are compared by reference in JavaScript; two arrays or
  objects of the model are never the same reference.
\<close>

fun strict_eq :: "jsval \<Rightarrow> jsval \<Rightarrow> bool" where
  "strict_eq (JNum a) (JNum b) = (a = b \<and> a \<noteq> NaN)"
| "strict_eq (JArr xs) v = False"
| "strict_eq (JObj kvs) v = False"
| "strict_eq v1 v2 = (v1 = v2)"

text \<open>
  \<open>deepEquals\<close>: a primitive first argument is settled by the first three tests of the
  source (identity, \<open>null\<close>, \<open>typeof\<close>) and its final \<open>return false\<close>, which together are
  \<open>===\<close>.  An array is equal to an array of the same length whose items are equal index by
  index, an object to an object with as many keys, each key of the first being a key of the
  second with an equal value.
\<close>

fun deepEquals :: "jsval \<Rightarrow> jsval \<Rightarrow> bool"
  and deepEquals_items :: "jsval list \<Rightarrow> jsval list \<Rightarrow> bool"
  and deepEquals_keys :: "(string \<times> jsval) list \<Rightarrow> (string \<times> jsval) list \<Rightarrow> bool"
where
  "deepEquals (JArr xs) v2 =
     (case v2 of
        JArr ys \<Rightarrow> if length xs \<noteq> length ys then False else deepEquals_items xs ys
      | _ \<Rightarrow> False)"
| "deepEquals (JObj kvs) v2 =
     (case v2 of
        JObj kvs2 \<Rightarrow> if length kvs \<noteq> length kvs2 then False else deepEquals_keys kvs kvs2
      | _ \<Rightarrow> False)"
| "deepEquals JUndefined v2 = strict_eq JUndefined v2"
| "deepEquals JNull v2 = strict_eq JNull v2"
| "deepEquals (JBool b) v2 = strict_eq (JBool b) v2"
| "deepEquals (JNum n) v2 = strict_eq (JNum n) v2"
| "deepEquals (JStr s) v2 = strict_eq (JStr s) v2"
| "deepEquals (JFun f) v2 = strict_eq (JFun f) v2"
| "deepEquals_items [] ys = True"
| "deepEquals_items (x # xs) ys =
     (deepEquals x (case ys of [] \<Rightarrow> JUndefined | y # _ \<Rightarrow> y) \<and> deepEquals_items xs (tl ys))"
| "deepEquals_keys [] kvs2 = True"
| "deepEquals_keys ((key, v) # rest) kvs2 =
     (key \<in> set (map fst kvs2) \<and> deepEquals v (member (JObj kvs2) key) \<and> deepEquals_keys rest kvs2)"

text \<open>\<open>Object.entries\<close>: the own enumerable properties; it throws on \<open>null\<close> and \<open>undefined\<close>.\<close>

fun Object_entries :: "jsval \<Rightarrow> jserror + (string \<times> jsval) list" where
  "Object_entries JUndefined = Inl TypeError"
| "Object_entries JNull = Inl TypeError"
| "Object_entries (JObj kvs) = Inr kvs"
| "Object_entries (JArr xs) = Inr (zip (map nat_to_string [0..<length xs]) xs)"
| "Object_entries (JStr s) = Inr (zip (map nat_to_string [0..<length s]) (map (\<lambda>c. JStr [c]) s))"
| "Object_entries v = Inr []"

definition matchesSingleCriterion :: "jsval \<Rightarrow> jsval \<Rightarrow> jserror + bool" where
  "matchesSingleCriterion record criterion =
     (case Object_entries criterion of
        Inl e \<Rightarrow> Inl e
      | Inr entries \<Rightarrow>
          Inr (list_all (\<lambda>(key, v). deepEquals (getNestedProperty record key JUndefined) v) entries))"

text \<open>\<open>criteria.some(...)\<close>: the criteria are tried in order, up to the first that matches.\<close>

fun some_criterion :: "jsval \<Rightarrow> jsval list \<Rightarrow> jserror + bool" where
  "some_criterion record [] = Inr False"
| "some_criterion record (criterion # rest) =
     (case matchesSingleCriterion record criterion of
        Inl e \<Rightarrow> Inl e
      | Inr b \<Rightarrow> if b then Inr True else some_criterion record rest)"

fun matchesRecord :: "jsval \<Rightarrow> jsval \<Rightarrow> jserror + bool" where
  "matchesRecord record (JArr criteria) = some_criterion record criteria"
| "matchesRecord record criteria = matchesSingleCriterion record criteria"

text \<open>\<open>data.filter(predicate)\<close> with a predicate that may throw.\<close>

fun array_filter :: "('a \<Rightarrow> jserror + bool) \<Rightarrow> 'a list \<Rightarrow> jserror + 'a list" where
  "array_filter p [] = Inr []"
| "array_filter p (x # xs) =
     (case p x of
        Inl e \<Rightarrow> Inl e
      | Inr b \<Rightarrow>
          (case array_filter p xs of
             Inl e \<Rightarrow> Inl e
           | Inr ys \<Rightarrow> Inr (if b then x # ys else ys)))"

section \<open>Include and Exclude rules\<close>

fun IncludeRule_execute :: "jsval \<Rightarrow> jsval \<Rightarrow> jserror + jsval list" where
  "IncludeRule_execute (JArr data) config = array_filter (\<lambda>record. matchesRecord record config) data"
| "IncludeRule_execute data config = Inl (Error ''Include rule requires data to be an array'')"

fun ExcludeRule_execute :: "jsval \<Rightarrow> jsval \<Rightarrow> jserror + jsval list" where
  "ExcludeRule_execute (JArr data) config =
     array_filter (\<lambda>record. map_sum id Not (matchesRecord record config)) data"
| "ExcludeRule_execute data config = Inl (Error ''Exclude rule requires data to be an array'')"

text \<open>A criteria spec: one criterion object, or an array of criterion objects.\<close>

fun is_object :: "jsval \<Rightarrow> bool" where
  "is_object (JObj kvs) = True"
| "is_object v = False"

fun is_criteria_spec :: "jsval \<Rightarrow> bool" where
  "is_criteria_spec (JObj kvs) = True"
| "is_criteria_spec (JArr cs) = list_all is_object cs"
| "is_criteria_spec v = False"

section \<open>The host environment\<close>

text \<open>
  What the processor takes from the JavaScript engine and from its caller, and the source
  does not define: the behaviour of the function values of a configuration when they are
  called with one argument (no result when the call throws), the text of a function and of
  a number, \<open>parseFloat\<close>, the conversion of a string to a number, the locale's
  \<open>localeCompare\<close> (with the options the source passes) and \<open>JSON.stringify\<close>.
  Every definition below is given for an arbitrary host.
\<close>

record host =
  call_fn :: "nat \<Rightarrow> jsval \<Rightarrow> jsval option"
  fn_text :: "nat \<Rightarrow> string"
  num_text :: "jsnum \<Rightarrow> string"
  parseFloat :: "string \<Rightarrow> jsnum"
  str_num :: "string \<Rightarrow> jsnum"
  localeCompare :: "string \<Rightarrow> string \<Rightarrow> jsnum"
  json_stringify :: "jsval \<Rightarrow> string"

fun join_with :: "string \<Rightarrow> string list \<Rightarrow> string" where
  "join_with sep [] = []"
| "join_with sep [x] = x"
| "join_with sep (x # y # ys) = x @ sep @ join_with sep (y # ys)"

fun nullish :: "jsval \<Rightarrow> bool" where
  "nullish JUndefined = True"
| "nullish JNull = True"
| "nullish v = False"

text \<open>
  \<open>String(v)\<close>.  An array is the texts of its items joined by commas, \<open>null\<close> and
  \<open>undefined\<close> items being empty; an object that does not redefine \<open>toString\<close> is
  \<open>[object Object]\<close>.
\<close>

fun js_String :: "host \<Rightarrow> jsval \<Rightarrow> string" where
  "js_String h JUndefined = ''undefined''"
| "js_String h JNull = ''null''"
| "js_String h (JBool b) = (if b then ''true'' else ''false'')"
| "js_String h (JNum n) = num_text h n"
| "js_String h (JStr s) = s"
| "js_String h (JFun f) = fn_text h f"
| "js_String h (JArr xs) = join_with '','' (map (\<lambda>x. if nullish x then [] else js_String h x) xs)"
| "js_String h (JObj kvs) = ''[object Object]''"

text \<open>\<open>ToNumber\<close>; an array or object is converted through its text.\<close>

fun toNumber :: "host \<Rightarrow> jsval \<Rightarrow> jsnum" where
  "toNumber h JUndefined = NaN"
| "toNumber h JNull = Fin 0"
| "toNumber h (JBool b) = Fin (if b then 1 else 0)"
| "toNumber h (JNum n) = n"
| "toNumber h (JStr s) = str_num h s"
| "toNumber h v = str_num h (js_String h v)"

text \<open>Subtraction of numbers; only the difference of equal infinities is not a number.\<close>

fun num_sub :: "jsnum \<Rightarrow> jsnum \<Rightarrow> jsnum" where
  "num_sub (Fin a) (Fin b) = Fin (a - b)"
| "num_sub NaN y = NaN"
| "num_sub x NaN = NaN"
| "num_sub PosInf PosInf = NaN"
| "num_sub NegInf NegInf = NaN"
| "num_sub PosInf y = PosInf"
| "num_sub NegInf y = NegInf"
| "num_sub (Fin a) PosInf = NegInf"
| "num_sub (Fin a) NegInf = PosInf"

fun positive :: "jsnum \<Rightarrow> bool" where
  "positive (Fin q) = (0 < q)"
| "positive PosInf = True"
| "positive n = False"

fun negative :: "jsnum \<Rightarrow> bool" where
  "negative (Fin q) = (q < 0)"
| "negative NegInf = True"
| "negative n = False"

fun isInteger :: "jsval \<Rightarrow> bool" where
  "isInteger (JNum (Fin q)) = (of_int \<lfloor>q\<rfloor> = q)"
| "isInteger v = False"

subsection \<open>Array.prototype.slice\<close>

text \<open>
  A relative index of \<open>slice\<close>: the argument is converted to a number and truncated
  towards zero (\<open>NaN\<close> is 0); a negative index counts from the end; the result is clamped to
  the array.
\<close>

definition js_trunc :: "rat \<Rightarrow> int" where
  "js_trunc q = (if 0 \<le> q then \<lfloor>q\<rfloor> else \<lceil>q\<rceil>)"

fun relative_index :: "nat \<Rightarrow> jsnum \<Rightarrow> nat" where
  "relative_index len NaN = 0"
| "relative_index len NegInf = 0"
| "relative_index len PosInf = len"
| "relative_index len (Fin q) =
     (if js_trunc q < 0 then nat (max (int len + js_trunc q) 0) else min (nat (js_trunc q)) len)"

definition array_slice :: "host \<Rightarrow> 'a list \<Rightarrow> jsval \<Rightarrow> jsval \<Rightarrow> 'a list" where
  "array_slice h xs start end =
     (let len = length xs;
          k = relative_index len (toNumber h start);
          final = (if end = JUndefined then len else relative_index len (toNumber h end))
      in take (final - k) (drop k xs))"

text \<open>\<open>skip\<close> is \<open>array.slice(n)\<close>, \<open>take\<close> is \<open>array.slice(0, n)\<close>.\<close>

definition skip :: "host \<Rightarrow> jsval \<Rightarrow> 'a list \<Rightarrow> 'a list" where
  "skip h n array = array_slice h array n JUndefined"

definition take_first :: "host \<Rightarrow> jsval \<Rightarrow> 'a list \<Rightarrow> 'a list" where
  "take_first h n array = array_slice h array (num 0) n"

subsection \<open>Array.prototype.sort\<close>

text \<open>
  The engine's sort is stable: ECMAScript requires it since the 2019 edition, whatever
  algorithm the engine runs.  Its model is the stable insertion sort: from the right, each
  item is inserted before the first item of the sorted rest that it is not greater than.
  A comparison that throws ends the sort.
\<close>

fun sort_insert :: "('a \<Rightarrow> 'a \<Rightarrow> jserror + jsnum) \<Rightarrow> 'a \<Rightarrow> 'a list \<Rightarrow> jserror + 'a list" where
  "sort_insert cmp x [] = Inr [x]"
| "sort_insert cmp x (y # ys) =
     (case cmp x y of
        Inl e \<Rightarrow> Inl e
      | Inr v \<Rightarrow>
          if positive v
          then (case sort_insert cmp x ys of Inl e \<Rightarrow> Inl e | Inr zs \<Rightarrow> Inr (y # zs))
          else Inr (x # y # ys))"

fun array_sort :: "('a \<Rightarrow> 'a \<Rightarrow> jserror + jsnum) \<Rightarrow> 'a list \<Rightarrow> jserror + 'a list" where
  "array_sort cmp [] = Inr []"
| "array_sort cmp (x # xs) =
     (case array_sort cmp xs of Inl e \<Rightarrow> Inl e | Inr ys \<Rightarrow> sort_insert cmp x ys)"

text \<open>
  The comparison the engine makes of two array items (\<open>SortCompare\<close>): \<open>undefined\<close> items
  go last without the comparator being asked.
\<close>

definition sortCompare :: "(jsval \<Rightarrow> jsval \<Rightarrow> jserror + jsnum) \<Rightarrow> jsval \<Rightarrow> jsval \<Rightarrow> jserror + jsnum" where
  "sortCompare comparator x y =
     (if x = JUndefined \<and> y = JUndefined then Inr (Fin 0)
      else if x = JUndefined then Inr (Fin 1)
      else if y = JUndefined then Inr (Fin (- 1))
      else comparator x y)"

text \<open>\<open>FunctionalUtils.sort\<close>: \<open>[...array].sort(comparator)\<close>.\<close>

definition sort_array :: "(jsval \<Rightarrow> jsval \<Rightarrow> jserror + jsnum) \<Rightarrow> jsval list \<Rightarrow> jserror + jsval list" where
  "sort_array comparator array = array_sort (sortCompare comparator) array"

subsection \<open>naturalSort and multiKeyComparator\<close>

definition naturalSort :: "host \<Rightarrow> jsval \<Rightarrow> jsval \<Rightarrow> jsnum" where
  "naturalSort h a b =
     (let aStr = js_String h a;
          bStr = js_String h b;
          aNum = parseFloat h aStr;
          bNum = parseFloat h bStr
      in if aNum \<noteq> NaN \<and> bNum \<noteq> NaN then num_sub aNum bNum
         else localeCompare h aStr bStr)"

text \<open>
  \<open>getNestedProperty\<close> called with a path that is not a string throws, since only a
  string has \<open>split\<close>.
\<close>

fun getNestedProperty_of :: "jsval \<Rightarrow> jsval \<Rightarrow> jserror + jsval" where
  "getNestedProperty_of obj (JStr path) = Inr (getNestedProperty obj path JUndefined)"
| "getNestedProperty_of obj path = Inl TypeError"

fun multiKeyComparator :: "host \<Rightarrow> jsval list \<Rightarrow> jsval \<Rightarrow> jsval \<Rightarrow> jserror + jsnum" where
  "multiKeyComparator h [] a b = Inr (Fin 0)"
| "multiKeyComparator h (key # keys) a b =
     (case getNestedProperty_of a key of
        Inl e \<Rightarrow> Inl e
      | Inr aVal \<Rightarrow>
          (case getNestedProperty_of b key of
             Inl e \<Rightarrow> Inl e
           | Inr bVal \<Rightarrow>
               (let result = naturalSort h aVal bVal
                in if result \<noteq> Fin 0 then Inr result else multiKeyComparator h keys a b)))"

section \<open>Sort rule\<close>

text \<open>\<open>Array.isArray(config) ? config : [config]\<close>\<close>

definition sort_keys :: "jsval \<Rightarrow> jsval list" where
  "sort_keys config = (case config of JArr ks \<Rightarrow> ks | _ \<Rightarrow> [config])"

fun SortRule_execute :: "host \<Rightarrow> jsval \<Rightarrow> jsval \<Rightarrow> jserror + jsval list" where
  "SortRule_execute h (JArr data) config =
     (let keys = sort_keys config
      in sort_array (multiKeyComparator h keys) data)"
| "SortRule_execute h data config = Inl (Error ''Sort rule requires data to be an array'')"

section \<open>Limit rule\<close>

fun LimitRule_execute :: "host \<Rightarrow> jsval \<Rightarrow> jsval \<Rightarrow> jserror + jsval list" where
  "LimitRule_execute h (JArr data) config =
     (if typeof config = ''number''
      then Inr (take_first h config (skip h (num 0) data))
      else (case js_get config ''count'' of
              Inl e \<Rightarrow> Inl e
            | Inr cnt \<Rightarrow>
                (case js_get config ''offset'' of
                   Inl e \<Rightarrow> Inl e
                 | Inr off \<Rightarrow>
                     (let offset = (if truthy off then off else num 0)
                      in Inr (take_first h cnt (skip h offset data))))))"
| "LimitRule_execute h data config = Inl (Error ''Limit rule requires data to be an array'')"

section \<open>Transform rule\<close>

text \<open>
  \<open>deepClone\<close> copies arrays and objects level by level and returns every other value as
  it is; on the values of the model the copy is equal to the original.
\<close>

fun deepClone :: "jsval \<Rightarrow> jsval" where
  "deepClone (JArr xs) = JArr (map deepClone xs)"
| "deepClone (JObj kvs) = JObj (map (\<lambda>(key, v). (key, deepClone v)) kvs)"
| "deepClone v = v"

text \<open>
  The outcome of a statement: it completes with a value, or it throws.  One thing the
  rules can do has no value in the model: storing or deleting a property on a record that
  is an array or a function.  The outcome is then \<open>Unsupported\<close>, which every caller
  passes on unchanged, so that no theorem says what the program does there.
\<close>

datatype 'a outcome = Done 'a | Throws jserror | Unsupported

fun of_sum :: "jserror + 'a \<Rightarrow> 'a outcome" where
  "of_sum (Inl e) = Throws e"
| "of_sum (Inr x) = Done x"

text \<open>\<open>try { body } catch (error) { handler }\<close>\<close>

fun try_catch :: "'a outcome \<Rightarrow> (jserror \<Rightarrow> 'a outcome) \<Rightarrow> 'a outcome" where
  "try_catch (Done x) handler = Done x"
| "try_catch (Throws e) handler = handler e"
| "try_catch Unsupported handler = Unsupported"

text \<open>
  \<open>target[key] = v\<close> in strict code (a class body is strict): it throws on \<open>null\<close>,
  \<open>undefined\<close> and on a primitive.  On an object it replaces the property or adds it after
  the others.
\<close>

fun set_prop :: "jsval \<Rightarrow> string \<Rightarrow> jsval \<Rightarrow> jsval outcome" where
  "set_prop (JObj kvs) key v = Done (JObj (AList.update key v kvs))"
| "set_prop (JArr xs) key v = Unsupported"
| "set_prop (JFun f) key v = Unsupported"
| "set_prop target key v = Throws TypeError"

text \<open>\<open>target.hasOwnProperty(key)\<close>, for a target that does not redefine the method.\<close>

fun hasOwnProperty :: "jsval \<Rightarrow> string \<Rightarrow> jserror + bool" where
  "hasOwnProperty JUndefined key = Inl TypeError"
| "hasOwnProperty JNull key = Inl TypeError"
| "hasOwnProperty (JObj kvs) key = Inr (key \<in> set (map fst kvs))"
| "hasOwnProperty (JArr xs) key =
     Inr (key = ''length'' \<or> (case parse_index key of Some i \<Rightarrow> i < length xs | None \<Rightarrow> False))"
| "hasOwnProperty (JStr s) key =
     Inr (key = ''length'' \<or> (case parse_index key of Some i \<Rightarrow> i < length s | None \<Rightarrow> False))"
| "hasOwnProperty v key = Inr False"

text \<open>\<open>delete target[key]\<close> on an object.\<close>

fun delete_prop :: "jsval \<Rightarrow> string \<Rightarrow> jsval outcome" where
  "delete_prop (JObj kvs) key = Done (JObj (AList.delete key kvs))"
| "delete_prop target key = Unsupported"

subsection \<open>String templates\<close>

text \<open>
  \<open>String.prototype.trim\<close> removes white space at both ends; of the characters a string
  of the model holds, these are the six ASCII ones and the no-break space.
\<close>

definition is_space :: "char \<Rightarrow> bool" where
  "is_space c = (of_char c \<in> {9, 10, 11, 12, 13, 32, 160 :: nat})"

definition trim :: "string \<Rightarrow> string" where
  "trim s = rev (dropWhile is_space (rev (dropWhile is_space s)))"

text \<open>
  One match of \<open>/\{\{([^}]+)\}\}/\<close> at the start of a string: two opening braces, the
  longest run of characters other than a closing brace, which is not empty, and two
  closing braces.  The result is the captured run and the text after the match.
\<close>

fun match_placeholder :: "string \<Rightarrow> (string \<times> string) option" where
  "match_placeholder (a # b # t) =
     (if a = CHR ''{'' \<and> b = CHR ''{'' then
        (let name = takeWhile (\<lambda>c. c \<noteq> CHR ''}'') t;
             r = dropWhile (\<lambda>c. c \<noteq> CHR ''}'') t
         in if name \<noteq> [] \<and> take 2 r = ''}}'' then Some (name, drop 2 r) else None)
      else None)"
| "match_placeholder s = None"

lemma match_placeholder_shorter:
  "match_placeholder s = Some (name, rest) \<Longrightarrow> length rest < length s"
proof (cases s rule: match_placeholder.cases)
  case (1 a b t)
  assume m: "match_placeholder s = Some (name, rest)"
  have "length (dropWhile (\<lambda>c. c \<noteq> CHR ''}'') t) \<le> length t"
    by (rule length_dropWhile_le)
  with m 1 show ?thesis
    by (auto simp: Let_def split: if_splits)
qed simp_all

text \<open>\<open>template.replace(regex, callback)\<close> with the global flag: matches are looked for from left to right, each after the end of the one before.\<close>

function replace_placeholders :: "(string \<Rightarrow> string) \<Rightarrow> string \<Rightarrow> string" where
  "replace_placeholders f [] = []"
| "replace_placeholders f (c # cs) =
     (case match_placeholder (c # cs) of
        Some (name, rest) \<Rightarrow> f name @ replace_placeholders f rest
      | None \<Rightarrow> c # replace_placeholders f cs)"
  by pat_completeness auto
termination
  by (relation "measure (\<lambda>(f, s). length s)") (auto dest: match_placeholder_shorter)

definition evaluateStringTemplate :: "host \<Rightarrow> string \<Rightarrow> jsval \<Rightarrow> string" where
  "evaluateStringTemplate h template record =
     replace_placeholders
       (\<lambda>fieldPath.
          (let v = getNestedProperty record (trim fieldPath) JUndefined
           in if \<not> nullish v then js_String h v else []))
       template"

subsection \<open>transformRecord\<close>

text \<open>
  The \<open>fields\<close> step: a new object with the selected fields that are defined, each under
  its path.  A field that is not a string makes \<open>getNestedProperty\<close> throw.
\<close>

fun select_fields :: "jsval \<Rightarrow> jsval list \<Rightarrow> (string \<times> jsval) list \<Rightarrow> jserror + jsval" where
  "select_fields record [] selectedFields = Inr (JObj selectedFields)"
| "select_fields record (JStr field # rest) selectedFields =
     (let v = getNestedProperty record field JUndefined
      in select_fields record rest
           (if v \<noteq> JUndefined then AList.update field v selectedFields else selectedFields))"
| "select_fields record (field # rest) selectedFields = Inl TypeError"

text \<open>
  \<open>config.fields.forEach(...)\<close>: only an array has \<open>forEach\<close> among the values of the model.
\<close>

fun apply_fields :: "jsval \<Rightarrow> jsval \<Rightarrow> jserror + jsval" where
  "apply_fields record (JArr items) = select_fields record items []"
| "apply_fields record items = Inl TypeError"

text \<open>
  The value of one computed field: a function is called with the record, a string is a
  template filled from the record, anything else leaves the value \<open>undefined\<close>.
\<close>

fun compute_value :: "host \<Rightarrow> jsval \<Rightarrow> jsval \<Rightarrow> jsval outcome" where
  "compute_value h (JFun f) record =
     (case call_fn h f record of Some v \<Rightarrow> Done v | None \<Rightarrow> Throws (Error ''computation failed''))"
| "compute_value h (JStr template) record = Done (JStr (evaluateStringTemplate h template record))"
| "compute_value h computation record = Done JUndefined"

text \<open>
  One entry of \<open>computed\<close>: the value is computed from the original record and stored in
  the result; when that throws, the field is set to \<open>null\<close> instead (and a warning logged).
\<close>

definition compute_field :: "host \<Rightarrow> jsval \<Rightarrow> jsval \<Rightarrow> string \<times> jsval \<Rightarrow> jsval outcome" where
  "compute_field h record result entry =
     (case entry of (key, computation) \<Rightarrow>
        try_catch
          (case compute_value h computation record of
             Done v \<Rightarrow> set_prop result key v
           | Throws e \<Rightarrow> Throws e
           | Unsupported \<Rightarrow> Unsupported)
          (\<lambda>error. set_prop result key JNull))"

fun add_computed :: "host \<Rightarrow> jsval \<Rightarrow> jsval \<Rightarrow> (string \<times> jsval) list \<Rightarrow> jsval outcome" where
  "add_computed h record result [] = Done result"
| "add_computed h record result (entry # entries) =
     (case compute_field h record result entry of
        Done result' \<Rightarrow> add_computed h record result' entries
      | Throws e \<Rightarrow> Throws e
      | Unsupported \<Rightarrow> Unsupported)"

text \<open>One entry of \<open>rename\<close>: an own property of the result moves to the new key.\<close>

definition rename_field :: "host \<Rightarrow> jsval \<Rightarrow> string \<times> jsval \<Rightarrow> jsval outcome" where
  "rename_field h result entry =
     (case entry of (oldKey, newKey) \<Rightarrow>
        (case hasOwnProperty result oldKey of
           Inl e \<Rightarrow> Throws e
         | Inr False \<Rightarrow> Done result
         | Inr True \<Rightarrow>
             (case set_prop result (js_String h newKey) (member result oldKey) of
                Done result' \<Rightarrow> delete_prop result' oldKey
              | Throws e \<Rightarrow> Throws e
              | Unsupported \<Rightarrow> Unsupported)))"

fun rename_fields :: "host \<Rightarrow> jsval \<Rightarrow> (string \<times> jsval) list \<Rightarrow> jsval outcome" where
  "rename_fields h result [] = Done result"
| "rename_fields h result (entry # entries) =
     (case rename_field h result entry of
        Done result' \<Rightarrow> rename_fields h result' entries
      | Throws e \<Rightarrow> Throws e
      | Unsupported \<Rightarrow> Unsupported)"

definition transformRecord :: "host \<Rightarrow> jsval \<Rightarrow> jsval \<Rightarrow> jsval outcome" where
  "transformRecord h record config =
     (case js_get config ''fields'' of
        Inl e \<Rightarrow> Throws e
      | Inr selection \<Rightarrow>
     (case (if truthy selection then apply_fields record selection else Inr (deepClone record)) of
        Inl e \<Rightarrow> Throws e
      | Inr selected \<Rightarrow>
     (case (let computed = member config ''computed''
            in if truthy computed
               then (case Object_entries computed of
                       Inl e \<Rightarrow> Throws e
                     | Inr entries \<Rightarrow> add_computed h record selected entries)
               else Done selected) of
        Throws e \<Rightarrow> Throws e
      | Unsupported \<Rightarrow> Unsupported
      | Done computed_result \<Rightarrow>
          (let rename = member config ''rename''
           in if truthy rename
              then (case Object_entries rename of
                      Inl e \<Rightarrow> Throws e
                    | Inr entries \<Rightarrow> rename_fields h computed_result entries)
              else Done computed_result))))"

text \<open>\<open>data.map(f)\<close> for an \<open>f\<close> that may throw.\<close>

fun array_map :: "('a \<Rightarrow> 'b outcome) \<Rightarrow> 'a list \<Rightarrow> 'b list outcome" where
  "array_map f [] = Done []"
| "array_map f (x # xs) =
     (case f x of
        Done y \<Rightarrow>
          (case array_map f xs of
             Done ys \<Rightarrow> Done (y # ys)
           | Throws e \<Rightarrow> Throws e
           | Unsupported \<Rightarrow> Unsupported)
      | Throws e \<Rightarrow> Throws e
      | Unsupported \<Rightarrow> Unsupported)"

fun TransformRule_execute :: "host \<Rightarrow> jsval \<Rightarrow> jsval \<Rightarrow> jsval list outcome" where
  "TransformRule_execute h (JArr data) config = array_map (\<lambda>record. transformRecord h record config) data"
| "TransformRule_execute h data config = Throws (Error ''Transform rule requires data to be an array'')"

section \<open>Validation of rule configurations\<close>

record validation =
  isValid :: bool
  errors :: "string list"
  warnings :: "string list"

definition validation_result :: "string list \<Rightarrow> string list \<Rightarrow> validation" where
  "validation_result errs warns = \<lparr>isValid = (length errs = 0), errors = errs, warnings = warns\<rparr>"

text \<open>\<open>array.forEach((item, index) => ...)\<close> collecting messages: the items with their indices.\<close>

definition indexed :: "'a list \<Rightarrow> (nat \<times> 'a) list" where
  "indexed xs = zip [0..<length xs] xs"

definition validateCriteriaConfig :: "jsval \<Rightarrow> string \<Rightarrow> validation" where
  "validateCriteriaConfig config ruleName =
     (if \<not> truthy config then
        validation_result [ruleName @ '' rule requires configuration''] []
      else if \<not> isArray config \<and> typeof config \<noteq> ''object'' then
        validation_result [ruleName @ '' rule configuration must be an array or object''] []
      else (case config of
          JArr items \<Rightarrow>
            validation_result
              (concat (map (\<lambda>(index, item).
                              if typeof item \<noteq> ''object'' \<or> item = JNull
                              then [ruleName @ '' rule criteria['' @ nat_to_string index @ ''] must be an object'']
                              else [])
                        (indexed items)))
              (if length items = 0 then [ruleName @ '' rule has empty criteria array''] else [])
        | _ \<Rightarrow>
            validation_result []
              (case Object_entries config of
                 Inr entries \<Rightarrow>
                   if length entries = 0 then [ruleName @ '' rule has empty criteria object''] else []
               | Inl e \<Rightarrow> [])))"

definition SortRule_validate :: "jsval \<Rightarrow> validation" where
  "SortRule_validate config =
     (if \<not> truthy config then
        validation_result [''Sort rule requires configuration''] []
      else (case config of
          JStr s \<Rightarrow>
            validation_result (if trim s = [] then [''Sort rule key cannot be empty''] else []) []
        | JArr keys \<Rightarrow>
            validation_result
              (concat (map (\<lambda>(index, key).
                              (case key of
                                 JStr s \<Rightarrow>
                                   if trim s = []
                                   then [''Sort rule key['' @ nat_to_string index @ ''] cannot be empty'']
                                   else []
                               | _ \<Rightarrow> [''Sort rule key['' @ nat_to_string index @ ''] must be a string'']))
                        (indexed keys)))
              (if length keys = 0 then [''Sort rule has empty keys array''] else [])
        | _ \<Rightarrow>
            validation_result [''Sort rule configuration must be a string or array of strings''] []))"

text \<open>\<open>v < 0\<close>, asked only of a number.\<close>

fun below_zero :: "jsval \<Rightarrow> bool" where
  "below_zero (JNum n) = negative n"
| "below_zero v = False"

definition LimitRule_validate :: "jsval \<Rightarrow> validation" where
  "LimitRule_validate config =
     (if nullish config then
        validation_result [''Limit rule requires configuration''] []
      else if typeof config = ''number'' then
        validation_result
          (if \<not> isInteger config \<or> below_zero config
           then [''Limit rule count must be a non-negative integer''] else [])
          (if strict_eq config (num 0)
           then [''Limit rule count is 0, will return empty result''] else [])
      else if typeof config = ''object'' then
        (let cnt = member config ''count'';
             offset = member config ''offset''
         in validation_result
              ((if nullish cnt then [''Limit rule object must have count property'']
                else if \<not> isInteger cnt \<or> below_zero cnt
                then [''Limit rule count must be a non-negative integer''] else [])
               @ (if \<not> nullish offset \<and> (\<not> isInteger offset \<or> below_zero offset)
                  then [''Limit rule offset must be a non-negative integer''] else []))
              (if strict_eq cnt (num 0)
               then [''Limit rule count is 0, will return empty result''] else []))
      else
        validation_result [''Limit rule configuration must be a number or object with count/offset''] [])"

definition TransformRule_validate :: "jsval \<Rightarrow> validation" where
  "TransformRule_validate config =
     (if \<not> truthy config \<or> typeof config \<noteq> ''object'' then
        \<lparr>isValid = False, errors = [''Transform rule requires configuration object''], warnings = []\<rparr>
      else
        (let selection = member config ''fields'';
             computed = member config ''computed'';
             rename = member config ''rename''
         in validation_result
              ((if \<not> nullish selection then
                  (case selection of
                     JArr items \<Rightarrow>
                       concat (map (\<lambda>(index, field).
                                      if typeof field \<noteq> ''string''
                                      then [''Transform rule fields['' @ nat_to_string index @ ''] must be a string'']
                                      else [])
                                (indexed items))
                   | _ \<Rightarrow> [''Transform rule fields must be an array''])
                else [])
               @ (if \<not> nullish computed then
                    (if typeof computed \<noteq> ''object'' then [''Transform rule computed must be an object'']
                     else (case Object_entries computed of
                             Inr entries \<Rightarrow>
                               concat (map (\<lambda>(key, v).
                                              if typeof v \<noteq> ''function'' \<and> typeof v \<noteq> ''string''
                                              then [''Transform rule computed.'' @ key @ '' must be a function or string expression'']
                                              else [])
                                        entries)
                           | Inl e \<Rightarrow> []))
                  else [])
               @ (if \<not> nullish rename \<and> typeof rename \<noteq> ''object''
                  then [''Transform rule rename must be an object''] else []))
              []))"

section \<open>Rules and the rule registry\<close>

text \<open>
  The rule classes of the source.  A \<open>BaseRule\<close> is constructed with its name and type; the
  five rules fix both, and their priority, in their constructors.
\<close>

datatype rule =
    IncludeRule
  | ExcludeRule
  | SortRule
  | LimitRule
  | TransformRule
  | BaseRule string string

fun rule_name :: "rule \<Rightarrow> string" where
  "rule_name IncludeRule = ''Include''"
| "rule_name ExcludeRule = ''Exclude''"
| "rule_name SortRule = ''Sort''"
| "rule_name LimitRule = ''Limit''"
| "rule_name TransformRule = ''Transform''"
| "rule_name (BaseRule name type) = name"

fun rule_type :: "rule \<Rightarrow> string" where
  "rule_type IncludeRule = ''include''"
| "rule_type ExcludeRule = ''exclude''"
| "rule_type SortRule = ''sortBy''"
| "rule_type LimitRule = ''limit''"
| "rule_type TransformRule = ''transform''"
| "rule_type (BaseRule name type) = type"

fun priority :: "rule \<Rightarrow> int" where
  "priority IncludeRule = 1"
| "priority ExcludeRule = 2"
| "priority SortRule = 10"
| "priority LimitRule = 20"
| "priority TransformRule = 15"
| "priority (BaseRule name type) = 0"

fun validate :: "rule \<Rightarrow> jsval \<Rightarrow> validation" where
  "validate IncludeRule config = validateCriteriaConfig config ''Include''"
| "validate ExcludeRule config = validateCriteriaConfig config ''Exclude''"
| "validate SortRule config = SortRule_validate config"
| "validate LimitRule config = LimitRule_validate config"
| "validate TransformRule config = TransformRule_validate config"
| "validate (BaseRule name type) config = \<lparr>isValid = True, errors = [], warnings = []\<rparr>"

fun execute :: "host \<Rightarrow> rule \<Rightarrow> jsval \<Rightarrow> jsval \<Rightarrow> jsval list outcome" where
  "execute h IncludeRule data config = of_sum (IncludeRule_execute data config)"
| "execute h ExcludeRule data config = of_sum (ExcludeRule_execute data config)"
| "execute h SortRule data config = of_sum (SortRule_execute h data config)"
| "execute h LimitRule data config = of_sum (LimitRule_execute h data config)"
| "execute h TransformRule data config = TransformRule_execute h data config"
| "execute h (BaseRule name type) data config =
     Throws (Error (''Rule '' @ name @ '' must implement execute method''))"

text \<open>
  The registry is a \<open>Map\<close> from rule type to rule instance, in insertion order.
  Registering a type again replaces the instance.
\<close>

type_synonym registry = "(string \<times> rule) list"

definition registerRule :: "rule \<Rightarrow> registry \<Rightarrow> registry" where
  "registerRule ruleInstance rules = AList.update (rule_type ruleInstance) ruleInstance rules"

definition getRule :: "registry \<Rightarrow> string \<Rightarrow> rule option" where
  "getRule rules type = map_of rules type"

definition hasRule :: "registry \<Rightarrow> string \<Rightarrow> bool" where
  "hasRule rules type = (type \<in> set (map fst rules))"

definition unregisterRule :: "string \<Rightarrow> registry \<Rightarrow> registry" where
  "unregisterRule type rules = AList.delete type rules"

text \<open>\<open>autoRegisterRules\<close>: the five built-in rules, registered in this order.\<close>

definition autoRegisterRules :: "registry \<Rightarrow> registry" where
  "autoRegisterRules rules =
     foldl (\<lambda>rs ruleInstance. registerRule ruleInstance rs) rules
       [IncludeRule, ExcludeRule, SortRule, LimitRule, TransformRule]"

definition executeRule :: "host \<Rightarrow> registry \<Rightarrow> string \<Rightarrow> jsval \<Rightarrow> jsval \<Rightarrow> jsval list outcome" where
  "executeRule h rules type data config =
     (case getRule rules type of
        None \<Rightarrow> Throws (Error (''Rule type '' @ [CHR 0x27] @ type @ [CHR 0x27] @ '' is not registered''))
      | Some r \<Rightarrow>
          (let validation = validate r config
           in if \<not> isValid validation
              then Throws (Error (''Rule validation failed: '' @ join_with '', '' (errors validation)))
              else execute h r data config))"

section \<open>DataProcessor\<close>

text \<open>
  The comparator of the rule entries: the difference of the priorities of the two rules;
  reading the priority of a rule that is not registered throws.
\<close>

definition by_priority :: "registry \<Rightarrow> string \<times> jsval \<Rightarrow> string \<times> jsval \<Rightarrow> jserror + jsnum" where
  "by_priority rules a b =
     (case getRule rules (fst a) of
        None \<Rightarrow> Inl TypeError
      | Some ruleA \<Rightarrow>
          (case getRule rules (fst b) of
             None \<Rightarrow> Inl TypeError
           | Some ruleB \<Rightarrow> Inr (Fin (of_int (priority ruleA - priority ruleB)))))"

definition ruleEntries :: "registry \<Rightarrow> jsval \<Rightarrow> jserror + (string \<times> jsval) list" where
  "ruleEntries rules condition =
     (case Object_entries condition of
        Inl e \<Rightarrow> Inl e
      | Inr entries \<Rightarrow>
          array_sort (by_priority rules) (filter (\<lambda>(type, config). hasRule rules type) entries))"

definition applied_rule :: "registry \<Rightarrow> string \<Rightarrow> jsval \<Rightarrow> jserror + jsval" where
  "applied_rule rules type config =
     (case getRule rules type of
        None \<Rightarrow> Inl TypeError
      | Some r \<Rightarrow>
          Inr (JObj [(''type'', JStr type), (''config'', config),
                     (''priority'', JNum (Fin (of_int (priority r))))]))"

text \<open>
  The loop over the rule entries.  Each rule consumes the result of the one before; an
  error of a rule is thrown again with the type of the rule in its message.
\<close>

fun run_rules ::
  "host \<Rightarrow> registry \<Rightarrow> (string \<times> jsval) list \<Rightarrow> jsval list \<Rightarrow> jsval list \<Rightarrow> (jsval list \<times> jsval list) outcome"
where
  "run_rules h rules [] result appliedRules = Done (result, appliedRules)"
| "run_rules h rules ((type, config) # rest) result appliedRules =
     (case try_catch
             (case executeRule h rules type (JArr result) config of
                Done result' \<Rightarrow>
                  (case applied_rule rules type config of
                     Inl e \<Rightarrow> Throws e
                   | Inr entry \<Rightarrow> Done (result', appliedRules @ [entry]))
              | Throws e \<Rightarrow> Throws e
              | Unsupported \<Rightarrow> Unsupported)
             (\<lambda>error. Throws (Error (''Failed to execute '' @ type @ '' rule: '' @ message error))) of
        Done (result', appliedRules') \<Rightarrow> run_rules h rules rest result' appliedRules'
      | Throws e \<Rightarrow> Throws e
      | Unsupported \<Rightarrow> Unsupported)"

text \<open>\<open>Math.round(endTime - startTime)\<close> of two readings of the clock.\<close>

definition processingTime :: "rat \<Rightarrow> rat \<Rightarrow> jsval" where
  "processingTime startTime endTime = JNum (Fin (of_int \<lfloor>endTime - startTime + 1 / 2\<rfloor>))"

fun array_items :: "jsval \<Rightarrow> jsval list" where
  "array_items (JArr xs) = xs"
| "array_items v = []"

text \<open>The body of the \<open>try\<close> block of \<open>processData\<close>, up to the end of the loop.\<close>

definition process_rules :: "host \<Rightarrow> registry \<Rightarrow> jsval \<Rightarrow> jsval \<Rightarrow> (jsval list \<times> jsval list) outcome" where
  "process_rules h rules data condition =
     (if \<not> isArray data then Throws (Error ''Data must be an array'')
      else if \<not> truthy condition \<or> typeof condition \<noteq> ''object'' then
        Throws (Error ''Condition must be an object'')
      else (let result = array_items (deepClone data)
            in (case ruleEntries rules condition of
                  Inl e \<Rightarrow> Throws e
                | Inr entries \<Rightarrow> run_rules h rules entries result [])))"

text \<open>The two objects \<open>processData\<close> returns: from the \<open>try\<close> block, and from the \<open>catch\<close> block.\<close>

definition success_result :: "rat \<Rightarrow> rat \<Rightarrow> jsval \<Rightarrow> jsval list \<Rightarrow> jsval list \<Rightarrow> jsval" where
  "success_result startTime endTime data result appliedRules =
     JObj [(''result'', JArr result),
           (''metadata'', JObj [(''inputCount'', num (length (array_items data))),
                                (''outputCount'', num (length result)),
                                (''processingTime'', processingTime startTime endTime),
                                (''appliedRules'', JArr appliedRules)])]"

definition failure_result :: "rat \<Rightarrow> rat \<Rightarrow> jsval \<Rightarrow> jserror \<Rightarrow> jsval" where
  "failure_result startTime endTime data error =
     JObj [(''result'', JArr []),
           (''metadata'', JObj [(''inputCount'', num (if isArray data then length (array_items data) else 0)),
                                (''outputCount'', num 0),
                                (''processingTime'', processingTime startTime endTime),
                                (''appliedRules'', JArr []),
                                (''error'', JStr (message error))])]"

text \<open>
  \<open>processData\<close>, with the two readings of the clock it makes: the result of the \<open>try\<close>
  block, or the result the \<open>catch\<close> block builds from the message of the error.
\<close>

definition processData :: "host \<Rightarrow> registry \<Rightarrow> rat \<Rightarrow> rat \<Rightarrow> jsval \<Rightarrow> jsval \<Rightarrow> jsval outcome" where
  "processData h rules startTime endTime data condition =
     try_catch
       (case process_rules h rules data condition of
          Done (result, appliedRules) \<Rightarrow> Done (success_result startTime endTime data result appliedRules)
        | Throws e \<Rightarrow> Throws e
        | Unsupported \<Rightarrow> Unsupported)
       (\<lambda>error. Done (failure_result startTime endTime data error))"

section \<open>The rules on a store of objects\<close>

text \<open>
  The definitions above compute with values.  Whether a rule changes the data of its
  caller is a question about the objects the values are stored in: two references to one
  object see each other's writes.  Here the data lives in a store.  A reference is the
  address of a cell; a cell is an array or an object, whose items are primitive values and
  references.  Allocating adds a cell at the end of the store; writing replaces the cell
  at an address.  Configurations are not stored: the rules only read them, and they are
  given as values.
\<close>

datatype hval =
    HUndefined
  | HNull
  | HBool bool
  | HNum jsnum
  | HStr string
  | HFun nat
  | HRef nat

datatype cell = HArr "hval list" | HObj "(string \<times> hval) list"

type_synonym heap = "cell list"

definition alloc :: "cell \<Rightarrow> heap \<Rightarrow> nat \<times> heap" where
  "alloc c hp = (length hp, hp @ [c])"

definition write_cell :: "nat \<Rightarrow> cell \<Rightarrow> heap \<Rightarrow> heap" where
  "write_cell a c hp = hp[a := c]"

subsection \<open>Reading values out of the store\<close>

text \<open>
  The value a reference stands for.  The stores of the model are those in which a cell
  refers only to cells allocated before it, as parsing JSON and evaluating literals builds
  them; any other reference reads as \<open>undefined\<close>.
\<close>

fun prim_value :: "hval \<Rightarrow> jsval" where
  "prim_value HUndefined = JUndefined"
| "prim_value HNull = JNull"
| "prim_value (HBool b) = JBool b"
| "prim_value (HNum n) = JNum n"
| "prim_value (HStr s) = JStr s"
| "prim_value (HFun f) = JFun f"
| "prim_value (HRef a) = JUndefined"

function value_at :: "heap \<Rightarrow> nat \<Rightarrow> jsval" where
  "value_at hp a =
     (if a < length hp then
        (case hp ! a of
           HArr items \<Rightarrow>
             JArr (map (\<lambda>v. case v of
                               HRef b \<Rightarrow> if b < a then value_at hp b else JUndefined
                             | _ \<Rightarrow> prim_value v) items)
         | HObj props \<Rightarrow>
             JObj (map (\<lambda>(key, v). (key, case v of
                                           HRef b \<Rightarrow> if b < a then value_at hp b else JUndefined
                                         | _ \<Rightarrow> prim_value v)) props))
      else JUndefined)"
  by pat_completeness auto
termination
  by (relation "measure snd") auto

declare value_at.simps [simp del]

fun value_of :: "heap \<Rightarrow> hval \<Rightarrow> jsval" where
  "value_of hp (HRef a) = value_at hp a"
| "value_of hp v = prim_value v"

subsection \<open>Storing values\<close>

text \<open>A value stored in new cells, the cells of its parts first.\<close>

fun store_value :: "jsval \<Rightarrow> heap \<Rightarrow> hval \<times> heap"
  and store_items :: "jsval list \<Rightarrow> heap \<Rightarrow> hval list \<times> heap"
  and store_props :: "(string \<times> jsval) list \<Rightarrow> heap \<Rightarrow> (string \<times> hval) list \<times> heap"
where
  "store_value JUndefined hp = (HUndefined, hp)"
| "store_value JNull hp = (HNull, hp)"
| "store_value (JBool b) hp = (HBool b, hp)"
| "store_value (JNum n) hp = (HNum n, hp)"
| "store_value (JStr s) hp = (HStr s, hp)"
| "store_value (JFun f) hp = (HFun f, hp)"
| "store_value (JArr xs) hp =
     (case store_items xs hp of (items, hp') \<Rightarrow> (HRef (length hp'), hp' @ [HArr items]))"
| "store_value (JObj kvs) hp =
     (case store_props kvs hp of (props, hp') \<Rightarrow> (HRef (length hp'), hp' @ [HObj props]))"
| "store_items [] hp = ([], hp)"
| "store_items (x # xs) hp =
     (case store_value x hp of (v, hp') \<Rightarrow>
        (case store_items xs hp' of (vs, hp'') \<Rightarrow> (v # vs, hp'')))"
| "store_props [] hp = ([], hp)"
| "store_props ((key, x) # kvs) hp =
     (case store_value x hp of (v, hp') \<Rightarrow>
        (case store_props kvs hp' of (props, hp'') \<Rightarrow> ((key, v) # props, hp'')))"

text \<open>
  \<open>deepClone\<close> on the store: new cells for the arrays and objects reached from the
  argument, every other value as it is.
\<close>

definition h_deepClone :: "hval \<Rightarrow> heap \<Rightarrow> hval \<times> heap" where
  "h_deepClone v hp = store_value (value_of hp v) hp"

subsection \<open>Property access on the store\<close>

fun h_truthy :: "hval \<Rightarrow> bool" where
  "h_truthy (HRef a) = True"
| "h_truthy v = truthy (prim_value v)"

text \<open>\<open>v[key]\<close>: the item itself, a reference when the property holds an object.\<close>

fun cell_member :: "cell \<Rightarrow> string \<Rightarrow> hval" where
  "cell_member (HObj props) key = (case map_of props key of Some v \<Rightarrow> v | None \<Rightarrow> HUndefined)"
| "cell_member (HArr items) key =
     (if key = ''length'' then HNum (Fin (of_nat (length items)))
      else (case parse_index key of
              Some i \<Rightarrow> if i < length items then items ! i else HUndefined
            | None \<Rightarrow> HUndefined))"

fun h_member :: "heap \<Rightarrow> hval \<Rightarrow> string \<Rightarrow> hval" where
  "h_member hp (HRef a) key = (if a < length hp then cell_member (hp ! a) key else HUndefined)"
| "h_member hp (HStr s) key =
     (if key = ''length'' then HNum (Fin (of_nat (length s)))
      else (case parse_index key of
              Some i \<Rightarrow> if i < length s then HStr [s ! i] else HUndefined
            | None \<Rightarrow> HUndefined))"
| "h_member hp v key = HUndefined"

definition h_getNestedProperty :: "heap \<Rightarrow> hval \<Rightarrow> string \<Rightarrow> hval \<Rightarrow> hval" where
  "h_getNestedProperty hp obj path defaultValue =
     foldl (\<lambda>current key.
              if h_truthy current \<and> h_member hp current key \<noteq> HUndefined
              then h_member hp current key else defaultValue)
       obj (split_on CHR ''.'' path)"

text \<open>The items of the array a value refers to, if it is one.\<close>

fun h_array :: "heap \<Rightarrow> hval \<Rightarrow> hval list option" where
  "h_array hp (HRef a) =
     (if a < length hp then (case hp ! a of HArr items \<Rightarrow> Some items | HObj props \<Rightarrow> None) else None)"
| "h_array hp v = None"

subsection \<open>Include, Exclude, Sort and Limit on the store\<close>

text \<open>
  The four rules read the records and allocate the array they return; its items are
  items of the input array, the same references.
\<close>

definition h_IncludeRule_execute :: "hval \<Rightarrow> jsval \<Rightarrow> heap \<Rightarrow> hval outcome \<times> heap" where
  "h_IncludeRule_execute data config hp =
     (case h_array hp data of
        None \<Rightarrow> (Throws (Error ''Include rule requires data to be an array''), hp)
      | Some items \<Rightarrow>
          (case array_filter (\<lambda>r. matchesRecord (value_of hp r) config) items of
             Inl e \<Rightarrow> (Throws e, hp)
           | Inr kept \<Rightarrow> (case alloc (HArr kept) hp of (a, hp') \<Rightarrow> (Done (HRef a), hp'))))"

definition h_ExcludeRule_execute :: "hval \<Rightarrow> jsval \<Rightarrow> heap \<Rightarrow> hval outcome \<times> heap" where
  "h_ExcludeRule_execute data config hp =
     (case h_array hp data of
        None \<Rightarrow> (Throws (Error ''Exclude rule requires data to be an array''), hp)
      | Some items \<Rightarrow>
          (case array_filter (\<lambda>r. map_sum id Not (matchesRecord (value_of hp r) config)) items of
             Inl e \<Rightarrow> (Throws e, hp)
           | Inr kept \<Rightarrow> (case alloc (HArr kept) hp of (a, hp') \<Rightarrow> (Done (HRef a), hp'))))"

text \<open>
  \<open>[...array].sort(comparator)\<close>: the copy is allocated, then sorted in place, which writes
  the cell of the copy.
\<close>

definition h_SortRule_execute :: "host \<Rightarrow> hval \<Rightarrow> jsval \<Rightarrow> heap \<Rightarrow> hval outcome \<times> heap" where
  "h_SortRule_execute h data config hp =
     (case h_array hp data of
        None \<Rightarrow> (Throws (Error ''Sort rule requires data to be an array''), hp)
      | Some items \<Rightarrow>
          (case alloc (HArr items) hp of (a, hp') \<Rightarrow>
             (case array_sort
                     (\<lambda>x y. sortCompare (multiKeyComparator h (sort_keys config))
                               (value_of hp' x) (value_of hp' y)) items of
                Inl e \<Rightarrow> (Throws e, hp')
              | Inr sorted_items \<Rightarrow> (Done (HRef a), write_cell a (HArr sorted_items) hp'))))"

text \<open>\<open>skip\<close> and \<open>take\<close> are two calls of \<open>slice\<close>, each allocating its result.\<close>

definition h_LimitRule_execute :: "host \<Rightarrow> hval \<Rightarrow> jsval \<Rightarrow> heap \<Rightarrow> hval outcome \<times> heap" where
  "h_LimitRule_execute h data config hp =
     (case h_array hp data of
        None \<Rightarrow> (Throws (Error ''Limit rule requires data to be an array''), hp)
      | Some items \<Rightarrow>
          (case (if typeof config = ''number'' then Inr (config, num 0)
                 else (case js_get config ''count'' of
                         Inl e \<Rightarrow> Inl e
                       | Inr cnt \<Rightarrow>
                           (case js_get config ''offset'' of
                              Inl e \<Rightarrow> Inl e
                            | Inr off \<Rightarrow> Inr (cnt, if truthy off then off else num 0)))) of
             Inl e \<Rightarrow> (Throws e, hp)
           | Inr (cnt, offset) \<Rightarrow>
               (case alloc (HArr (skip h offset items)) hp of (a, hp') \<Rightarrow>
                  (case alloc (HArr (take_first h cnt (skip h offset items))) hp' of (b, hp'') \<Rightarrow>
                     (Done (HRef b), hp'')))))"

subsection \<open>Transform on the store\<close>

text \<open>\<open>target[key] = v\<close> and \<open>delete target[key]\<close> write the cell of the target.\<close>

fun h_set_prop :: "hval \<Rightarrow> string \<Rightarrow> hval \<Rightarrow> heap \<Rightarrow> unit outcome \<times> heap" where
  "h_set_prop (HRef a) key v hp =
     (if a < length hp then
        (case hp ! a of
           HObj props \<Rightarrow> (Done (), write_cell a (HObj (AList.update key v props)) hp)
         | HArr items \<Rightarrow> (Unsupported, hp))
      else (Unsupported, hp))"
| "h_set_prop (HFun f) key v hp = (Unsupported, hp)"
| "h_set_prop target key v hp = (Throws TypeError, hp)"

fun h_delete_prop :: "hval \<Rightarrow> string \<Rightarrow> heap \<Rightarrow> unit outcome \<times> heap" where
  "h_delete_prop (HRef a) key hp =
     (if a < length hp then
        (case hp ! a of
           HObj props \<Rightarrow> (Done (), write_cell a (HObj (AList.delete key props)) hp)
         | HArr items \<Rightarrow> (Unsupported, hp))
      else (Unsupported, hp))"
| "h_delete_prop target key hp = (Unsupported, hp)"

fun h_hasOwnProperty :: "heap \<Rightarrow> hval \<Rightarrow> string \<Rightarrow> jserror + bool" where
  "h_hasOwnProperty hp (HRef a) key =
     (if a < length hp then
        (case hp ! a of
           HObj props \<Rightarrow> Inr (key \<in> set (map fst props))
         | HArr items \<Rightarrow>
             Inr (key = ''length'' \<or> (case parse_index key of Some i \<Rightarrow> i < length items | None \<Rightarrow> False)))
      else Inr False)"
| "h_hasOwnProperty hp v key = hasOwnProperty (prim_value v) key"

text \<open>The \<open>fields\<close> step: the new object \<open>selectedFields\<close> is written once for each field found.\<close>

fun h_select_fields :: "hval \<Rightarrow> jsval list \<Rightarrow> hval \<Rightarrow> heap \<Rightarrow> unit outcome \<times> heap" where
  "h_select_fields record [] selectedFields hp = (Done (), hp)"
| "h_select_fields record (JStr field # rest) selectedFields hp =
     (let v = h_getNestedProperty hp record field HUndefined
      in if v \<noteq> HUndefined
         then (case h_set_prop selectedFields field v hp of
                 (Done u, hp') \<Rightarrow> h_select_fields record rest selectedFields hp'
               | (Throws e, hp') \<Rightarrow> (Throws e, hp')
               | (Unsupported, hp') \<Rightarrow> (Unsupported, hp'))
         else h_select_fields record rest selectedFields hp)"
| "h_select_fields record (field # rest) selectedFields hp = (Throws TypeError, hp)"

text \<open>
  The value of a computed field: the function is called with the value of the original
  record, and what it returns is stored.
\<close>

definition h_compute_value :: "host \<Rightarrow> jsval \<Rightarrow> hval \<Rightarrow> heap \<Rightarrow> hval outcome \<times> heap" where
  "h_compute_value h computation record hp =
     (case compute_value h computation (value_of hp record) of
        Done v \<Rightarrow> (case store_value v hp of (hv, hp') \<Rightarrow> (Done hv, hp'))
      | Throws e \<Rightarrow> (Throws e, hp)
      | Unsupported \<Rightarrow> (Unsupported, hp))"

definition h_compute_field :: "host \<Rightarrow> hval \<Rightarrow> hval \<Rightarrow> string \<times> jsval \<Rightarrow> heap \<Rightarrow> unit outcome \<times> heap" where
  "h_compute_field h record result entry hp =
     (case entry of (key, computation) \<Rightarrow>
        (case (case h_compute_value h computation record hp of
                 (Done v, hp') \<Rightarrow> h_set_prop result key v hp'
               | (Throws e, hp') \<Rightarrow> (Throws e, hp')
               | (Unsupported, hp') \<Rightarrow> (Unsupported, hp')) of
           (Throws e, hp') \<Rightarrow> h_set_prop result key HNull hp'
         | other \<Rightarrow> other))"

fun h_add_computed :: "host \<Rightarrow> hval \<Rightarrow> hval \<Rightarrow> (string \<times> jsval) list \<Rightarrow> heap \<Rightarrow> unit outcome \<times> heap" where
  "h_add_computed h record result [] hp = (Done (), hp)"
| "h_add_computed h record result (entry # entries) hp =
     (case h_compute_field h record result entry hp of
        (Done u, hp') \<Rightarrow> h_add_computed h record result entries hp'
      | other \<Rightarrow> other)"

definition h_rename_field :: "host \<Rightarrow> hval \<Rightarrow> string \<times> jsval \<Rightarrow> heap \<Rightarrow> unit outcome \<times> heap" where
  "h_rename_field h result entry hp =
     (case entry of (oldKey, newKey) \<Rightarrow>
        (case h_hasOwnProperty hp result oldKey of
           Inl e \<Rightarrow> (Throws e, hp)
         | Inr False \<Rightarrow> (Done (), hp)
         | Inr True \<Rightarrow>
             (case h_set_prop result (js_String h newKey) (h_member hp result oldKey) hp of
                (Done u, hp') \<Rightarrow> h_delete_prop result oldKey hp'
              | other \<Rightarrow> other)))"

fun h_rename_fields :: "host \<Rightarrow> hval \<Rightarrow> (string \<times> jsval) list \<Rightarrow> heap \<Rightarrow> unit outcome \<times> heap" where
  "h_rename_fields h result [] hp = (Done (), hp)"
| "h_rename_fields h result (entry # entries) hp =
     (case h_rename_field h result entry hp of
        (Done u, hp') \<Rightarrow> h_rename_fields h result entries hp'
      | other \<Rightarrow> other)"

text \<open>
  \<open>transformRecord\<close>: the result is the clone of the record, or the new object
  \<open>selectedFields\<close>; the two later steps write it.
\<close>

definition h_fields_step :: "hval \<Rightarrow> jsval \<Rightarrow> hval \<Rightarrow> heap \<Rightarrow> hval outcome \<times> heap" where
  "h_fields_step record selection clone hp =
     (if truthy selection
      then (case alloc (HObj []) hp of (s, hp2) \<Rightarrow>
              (case selection of
                 JArr items \<Rightarrow>
                   (case h_select_fields record items (HRef s) hp2 of
                      (Done u, hp3) \<Rightarrow> (Done (HRef s), hp3)
                    | (Throws e, hp3) \<Rightarrow> (Throws e, hp3)
                    | (Unsupported, hp3) \<Rightarrow> (Unsupported, hp3))
               | _ \<Rightarrow> (Throws TypeError, hp2)))
      else (Done clone, hp))"

definition h_computed_step :: "host \<Rightarrow> hval \<Rightarrow> hval \<Rightarrow> jsval \<Rightarrow> heap \<Rightarrow> unit outcome \<times> heap" where
  "h_computed_step h record result config hp =
     (let computed = member config ''computed''
      in if truthy computed
         then (case Object_entries computed of
                 Inl e \<Rightarrow> (Throws e, hp)
               | Inr entries \<Rightarrow> h_add_computed h record result entries hp)
         else (Done (), hp))"

definition h_rename_step :: "host \<Rightarrow> hval \<Rightarrow> jsval \<Rightarrow> heap \<Rightarrow> unit outcome \<times> heap" where
  "h_rename_step h result config hp =
     (let rename = member config ''rename''
      in if truthy rename
         then (case Object_entries rename of
                 Inl e \<Rightarrow> (Throws e, hp)
               | Inr entries \<Rightarrow> h_rename_fields h result entries hp)
         else (Done (), hp))"

definition h_transformRecord :: "host \<Rightarrow> hval \<Rightarrow> jsval \<Rightarrow> heap \<Rightarrow> hval outcome \<times> heap" where
  "h_transformRecord h record config hp =
     (case h_deepClone record hp of (clone, hp1) \<Rightarrow>
     (case js_get config ''fields'' of
        Inl e \<Rightarrow> (Throws e, hp1)
      | Inr selection \<Rightarrow>
     (case h_fields_step record selection clone hp1 of
        (Throws e, hp3) \<Rightarrow> (Throws e, hp3)
      | (Unsupported, hp3) \<Rightarrow> (Unsupported, hp3)
      | (Done result, hp3) \<Rightarrow>
     (case h_computed_step h record result config hp3 of
        (Throws e, hp4) \<Rightarrow> (Throws e, hp4)
      | (Unsupported, hp4) \<Rightarrow> (Unsupported, hp4)
      | (Done u, hp4) \<Rightarrow>
     (case h_rename_step h result config hp4 of
        (Throws e, hp5) \<Rightarrow> (Throws e, hp5)
      | (Unsupported, hp5) \<Rightarrow> (Unsupported, hp5)
      | (Done u', hp5) \<Rightarrow> (Done result, hp5))))))"

fun h_map_records :: "host \<Rightarrow> jsval \<Rightarrow> hval list \<Rightarrow> heap \<Rightarrow> hval list outcome \<times> heap" where
  "h_map_records h config [] hp = (Done [], hp)"
| "h_map_records h config (record # rest) hp =
     (case h_transformRecord h record config hp of
        (Done r, hp') \<Rightarrow>
          (case h_map_records h config rest hp' of
             (Done rs, hp'') \<Rightarrow> (Done (r # rs), hp'')
           | other \<Rightarrow> other)
      | (Throws e, hp') \<Rightarrow> (Throws e, hp')
      | (Unsupported, hp') \<Rightarrow> (Unsupported, hp'))"

definition h_TransformRule_execute :: "host \<Rightarrow> hval \<Rightarrow> jsval \<Rightarrow> heap \<Rightarrow> hval outcome \<times> heap" where
  "h_TransformRule_execute h data config hp =
     (case h_array hp data of
        None \<Rightarrow> (Throws (Error ''Transform rule requires data to be an array''), hp)
      | Some items \<Rightarrow>
          (case h_map_records h config items hp of
             (Done rs, hp') \<Rightarrow> (case alloc (HArr rs) hp' of (a, hp'') \<Rightarrow> (Done (HRef a), hp''))
           | (Throws e, hp') \<Rightarrow> (Throws e, hp')
           | (Unsupported, hp') \<Rightarrow> (Unsupported, hp')))"

subsection \<open>The pipeline on the store\<close>

fun h_execute :: "host \<Rightarrow> rule \<Rightarrow> hval \<Rightarrow> jsval \<Rightarrow> heap \<Rightarrow> hval outcome \<times> heap" where
  "h_execute h IncludeRule data config hp = h_IncludeRule_execute data config hp"
| "h_execute h ExcludeRule data config hp = h_ExcludeRule_execute data config hp"
| "h_execute h SortRule data config hp = h_SortRule_execute h data config hp"
| "h_execute h LimitRule data config hp = h_LimitRule_execute h data config hp"
| "h_execute h TransformRule data config hp = h_TransformRule_execute h data config hp"
| "h_execute h (BaseRule name type) data config hp =
     (Throws (Error (''Rule '' @ name @ '' must implement execute method'')), hp)"

definition h_executeRule :: "host \<Rightarrow> registry \<Rightarrow> string \<Rightarrow> hval \<Rightarrow> jsval \<Rightarrow> heap \<Rightarrow> hval outcome \<times> heap" where
  "h_executeRule h rules type data config hp =
     (case getRule rules type of
        None \<Rightarrow> (Throws (Error (''Rule type '' @ [CHR 0x27] @ type @ [CHR 0x27] @ '' is not registered'')), hp)
      | Some r \<Rightarrow>
          (let validation = validate r config
           in if \<not> isValid validation
              then (Throws (Error (''Rule validation failed: '' @ join_with '', '' (errors validation))), hp)
              else h_execute h r data config hp))"

fun h_run_rules :: "host \<Rightarrow> registry \<Rightarrow> (string \<times> jsval) list \<Rightarrow> hval \<Rightarrow> heap \<Rightarrow> hval outcome \<times> heap" where
  "h_run_rules h rules [] result hp = (Done result, hp)"
| "h_run_rules h rules ((type, config) # rest) result hp =
     (case h_executeRule h rules type result config hp of
        (Done result', hp') \<Rightarrow> h_run_rules h rules rest result' hp'
      | (Throws e, hp') \<Rightarrow>
          (Throws (Error (''Failed to execute '' @ type @ '' rule: '' @ message e)), hp')
      | (Unsupported, hp') \<Rightarrow> (Unsupported, hp'))"

text \<open>
  \<open>processData\<close> on the store, without the metadata: it returns the reference of the
  result array, which after an error is a new empty array.
\<close>

definition h_processData :: "host \<Rightarrow> registry \<Rightarrow> hval \<Rightarrow> jsval \<Rightarrow> heap \<Rightarrow> hval outcome \<times> heap" where
  "h_processData h rules data condition hp =
     (case (if h_array hp data = None then (Throws (Error ''Data must be an array''), hp)
            else if \<not> truthy condition \<or> typeof condition \<noteq> ''object'' then
              (Throws (Error ''Condition must be an object''), hp)
            else (case h_deepClone data hp of (result, hp1) \<Rightarrow>
                    (case ruleEntries rules condition of
                       Inl e \<Rightarrow> (Throws e, hp1)
                     | Inr entries \<Rightarrow> h_run_rules h rules entries result hp1))) of
        (Throws e, hp') \<Rightarrow> (case alloc (HArr []) hp' of (a, hp'') \<Rightarrow> (Done (HRef a), hp''))
      | other \<Rightarrow> other)"

subsection \<open>Export\<close>

text \<open>\<open>Object.keys\<close> of a value that is an object.\<close>

definition Object_keys :: "jsval \<Rightarrow> string list" where
  "Object_keys v = (case Object_entries v of Inr entries \<Rightarrow> map fst entries | Inl e \<Rightarrow> [])"

text \<open>\<open>fields.add(key)\<close> on a \<open>Set\<close>, which keeps the order of first insertion.\<close>

definition set_add :: "string list \<Rightarrow> string \<Rightarrow> string list" where
  "set_add names key = (if key \<in> set names then names else names @ [key])"

definition collect_fields :: "jsval list \<Rightarrow> string list" where
  "collect_fields data =
     foldl (\<lambda>names record.
              if typeof record = ''object'' \<and> record \<noteq> JNull
              then foldl set_add names (Object_keys record) else names)
       [] data"

text \<open>\<open>s.replace(/"/g, '""')\<close>\<close>

definition double_quotes :: "string \<Rightarrow> string" where
  "double_quotes s = concat (map (\<lambda>c. if c = CHR 0x22 then [c, c] else [c]) s)"

definition quoted :: "string \<Rightarrow> string" where
  "quoted s = [CHR 0x22] @ s @ [CHR 0x22]"

definition csv_cell :: "host \<Rightarrow> jsval \<Rightarrow> string" where
  "csv_cell h v = (if nullish v then quoted [] else quoted (double_quotes (js_String h v)))"

text \<open>One data row; reading a field of a record that is \<open>null\<close> or \<open>undefined\<close> throws.\<close>

fun csv_cells :: "host \<Rightarrow> jsval \<Rightarrow> string list \<Rightarrow> jserror + string list" where
  "csv_cells h record [] = Inr []"
| "csv_cells h record (field # rest) =
     (case js_get record field of
        Inl e \<Rightarrow> Inl e
      | Inr v \<Rightarrow>
          (case csv_cells h record rest of
             Inl e \<Rightarrow> Inl e
           | Inr cells \<Rightarrow> Inr (csv_cell h v # cells)))"

fun csv_rows :: "host \<Rightarrow> string \<Rightarrow> string list \<Rightarrow> jsval list \<Rightarrow> jserror + string list" where
  "csv_rows h delimiter fieldNames [] = Inr []"
| "csv_rows h delimiter fieldNames (record # rest) =
     (case csv_cells h record fieldNames of
        Inl e \<Rightarrow> Inl e
      | Inr cells \<Rightarrow>
          (case csv_rows h delimiter fieldNames rest of
             Inl e \<Rightarrow> Inl e
           | Inr rows \<Rightarrow> Inr (join_with delimiter cells # rows)))"

definition convertToCSV :: "host \<Rightarrow> jsval \<Rightarrow> string \<Rightarrow> jserror + string" where
  "convertToCSV h data delimiter =
     (if \<not> isArray data \<or> length (array_items data) = 0 then Inr []
      else (let fieldNames = collect_fields (array_items data);
                header = join_with delimiter (map quoted fieldNames)
            in (case csv_rows h delimiter fieldNames (array_items data) of
                  Inl e \<Rightarrow> Inl e
                | Inr rows \<Rightarrow> Inr (join_with [CHR 0x0A] (header # rows)))))"

text \<open>\<open>format.toLowerCase()\<close> on the characters a string of the model holds.\<close>

definition lower_char :: "char \<Rightarrow> char" where
  "lower_char c =
     (let n = (of_char c :: nat)
      in if (65 \<le> n \<and> n \<le> 90) \<or> (192 \<le> n \<and> n \<le> 222 \<and> n \<noteq> 215) then char_of (n + 32) else c)"

definition toLowerCase :: "string \<Rightarrow> string" where
  "toLowerCase s = map lower_char s"

definition exportResult :: "host \<Rightarrow> jsval \<Rightarrow> string \<Rightarrow> jserror + string" where
  "exportResult h result format =
     (let f = toLowerCase format
      in if f = ''json'' then Inr (json_stringify h result)
         else if f = ''csv'' then
           (case js_get result ''result'' of
              Inl e \<Rightarrow> Inl e
            | Inr data \<Rightarrow> convertToCSV h data '','')
         else if f = ''tsv'' then
           (case js_get result ''result'' of
              Inl e \<Rightarrow> Inl e
            | Inr data \<Rightarrow> convertToCSV h data [CHR 0x09])
         else Inl (Error (''Unsupported export format: '' @ format)))"

section \<open>Predicates of the statements\<close>

text \<open>An entry of \<open>appliedRules\<close> for a rule entry: its type, its configuration and the priority of its rule.\<close>

definition applied_entry :: "registry \<Rightarrow> string \<times> jsval \<Rightarrow> jsval \<Rightarrow> bool" where
  "applied_entry rules e entry = (\<exists>rl. getRule rules (fst e) = Some rl \<and>
       entry = JObj [(''type'', JStr (fst e)), (''config'', snd e), (''priority'', JNum (Fin (of_int (priority rl))))])"

text \<open>The priority of the rule that a rule entry of a condition names (0 when there is none).\<close>

definition entry_priority :: "registry \<Rightarrow> string \<times> jsval \<Rightarrow> int" where
  "entry_priority rules e = (case getRule rules (fst e) of Some r \<Rightarrow> priority r | None \<Rightarrow> 0)"

text \<open>What the \<open>computed\<close> step stores for one computation: its value, or \<open>null\<close> when it throws.\<close>

definition stored_value :: "host \<Rightarrow> jsval \<Rightarrow> jsval \<Rightarrow> jsval" where
  "stored_value h computation r =
     (case compute_value h computation r of Done v \<Rightarrow> v | Throws e \<Rightarrow> JNull | Unsupported \<Rightarrow> JNull)"

text \<open>
  The insertion sort of the model for a comparison that does not throw, given as the
  relation ``greater than'' it decides.
\<close>

fun insert_before :: "('a \<Rightarrow> 'a \<Rightarrow> bool) \<Rightarrow> 'a \<Rightarrow> 'a list \<Rightarrow> 'a list" where
  "insert_before gt x [] = [x]"
| "insert_before gt x (y # ys) = (if gt x y then y # insert_before gt x ys else x # y # ys)"

fun insertion_sort :: "('a \<Rightarrow> 'a \<Rightarrow> bool) \<Rightarrow> 'a list \<Rightarrow> 'a list" where
  "insertion_sort gt [] = []"
| "insertion_sort gt (x # xs) = insert_before gt x (insertion_sort gt xs)"

text \<open>In the list \<open>zs\<close>, an occurrence of \<open>i\<close> stands before an occurrence of \<open>j\<close>.\<close>

definition comes_before :: "'a list \<Rightarrow> 'a \<Rightarrow> 'a \<Rightarrow> bool" where
  "comes_before zs i j = (\<exists>as bs cs. zs = as @ i # bs @ j # cs)"

text \<open>A value that is not a reference to a cell below address \<open>n\<close>.\<close>

fun fresh_from :: "nat \<Rightarrow> hval \<Rightarrow> bool" where
  "fresh_from n (HRef a) = (n \<le> a)"
| "fresh_from n v = True"

text \<open>
  After a call that started in the store \<open>hp\<close> and ended in \<open>hp'\<close>, the value \<open>out\<close> is an
  array allocated during the call, and each of its items is an item of the input array
  \<open>data\<close>, a primitive value or a reference to a cell allocated during the call.
\<close>

definition new_array :: "heap \<Rightarrow> heap \<Rightarrow> hval \<Rightarrow> hval \<Rightarrow> bool" where
  "new_array hp hp' data out =
     (\<exists>a items. out = HRef a \<and> length hp \<le> a \<and> h_array hp' out = Some items \<and>
        list_all (\<lambda>x. fresh_from (length hp) x \<or>
                       (\<exists>old. h_array hp data = Some old \<and> x \<in> set old)) items)"

text \<open>
  The value \<open>out\<close> is an array at address \<open>n\<close> or above whose items are primitive values
  and references to cells at address \<open>n\<close> or above: none of them is a cell that existed
  when the store had \<open>n\<close> cells.
\<close>

definition new_records :: "nat \<Rightarrow> heap \<Rightarrow> hval \<Rightarrow> bool" where
  "new_records n hp out =
     (\<exists>a items. out = HRef a \<and> n \<le> a \<and> h_array hp out = Some items \<and>
        list_all (fresh_from n) items)"

section \<open>Sample inputs\<close>

text \<open>
  A host for the examples: no function value can be called, numbers print as the decimal
  digits of their integer part, no string parses as a number, and strings compare in
  lexicographic order of their characters.
\<close>

definition sample_host :: host where
  "sample_host =
     \<lparr>call_fn = (\<lambda>f record. None),
      fn_text = (\<lambda>f. ''function () { }''),
      num_text = (\<lambda>n. case n of Fin q \<Rightarrow> nat_to_string (nat \<lfloor>q\<rfloor>) | _ \<Rightarrow> ''NaN''),
      parseFloat = (\<lambda>s. NaN),
      str_num = (\<lambda>s. NaN),
      localeCompare = (\<lambda>a b. if a = b then Fin 0 else if a < b then Fin (- 1) else Fin 1),
      json_stringify = (\<lambda>v. [])\<rparr>"

text \<open>The first three records of the sample data of the unit tests.\<close>

definition sampleData :: "jsval list" where
  "sampleData =
     [JObj [(''name'', JStr ''John''), (''email'', JStr ''john2@mail.com''), (''age'', num 30), (''status'', JStr ''active'')],
      JObj [(''name'', JStr ''John''), (''email'', JStr ''john1@mail.com''), (''age'', num 25), (''status'', JStr ''inactive'')],
      JObj [(''name'', JStr ''Jane''), (''email'', JStr ''jane@mail.com''), (''age'', num 28), (''status'', JStr ''active'')]]"

text \<open>
  The same host with two function values: number 1 returns the \<open>age\<close> of its argument,
  as \<open>record => record.age\<close> does, and every other one throws.
\<close>

definition computing_host :: host where
  "computing_host = sample_host\<lparr>call_fn := (\<lambda>f r. if f = 1 then Some (member r ''age'') else None)\<rparr>"

text \<open>The sample data in a store that holds nothing else, and the reference to its array.\<close>

definition sample_store :: heap where
  "sample_store = snd (store_value (JArr sampleData) [])"

definition sample_ref :: hval where
  "sample_ref = fst (store_value (JArr sampleData) [])"

section \<open>The pipeline: general facts\<close>

lemma deepClone_id [simp]: "deepClone v = v"
proof (induction v)
  case (JArr xs)
  then show ?case by (simp add: map_idI)
next
  case (JObj kvs)
  have "map (\<lambda>(key, v). (key, deepClone v)) kvs = kvs"
  proof (rule map_idI)
    fix p assume p: "p \<in> set kvs"
    obtain k v where kv: "p = (k, v)" by (cases p)
    from p kv have "deepClone v = v" by (auto intro: JObj)
    then show "(case p of (key, v) \<Rightarrow> (key, deepClone v)) = p"
      by (simp add: kv)
  qed
  then show ?case by simp
qed simp_all

lemma run_rules_append:
  "run_rules h rules (xs @ ys) result applied =
     (case run_rules h rules xs result applied of
        Done (result', applied') \<Rightarrow> run_rules h rules ys result' applied'
      | Throws e \<Rightarrow> Throws e
      | Unsupported \<Rightarrow> Unsupported)"
proof (induction xs arbitrary: result applied)
  case Nil
  show ?case by simp
next
  case (Cons x xs)
  obtain type config where x: "x = (type, config)" by (cases x)
  show ?case
    unfolding x by (simp add: Cons split: outcome.splits prod.splits)
qed

lemma run_rules_applied:
  "run_rules h rules entries result applied = Done (result', applied') \<Longrightarrow>
   \<exists>new. applied' = applied @ new \<and> list_all2 (applied_entry rules) entries new"
proof (induction entries arbitrary: result applied)
  case Nil
  then show ?case by simp
next
  case (Cons x xs)
  obtain type config where x: "x = (type, config)" by (cases x)
  from Cons.prems obtain r1 entry where
    e: "executeRule h rules type (JArr result) config = Done r1"
    and a: "applied_rule rules type config = Inr entry"
    and rest: "run_rules h rules xs r1 (applied @ [entry]) = Done (result', applied')"
    unfolding x by (auto split: outcome.splits sum.splits prod.splits)
  from Cons.IH [OF rest] obtain new where
    new: "applied' = (applied @ [entry]) @ new" "list_all2 (applied_entry rules) xs new" by blast
  from a have "applied_entry rules (type, config) entry"
    by (auto simp: applied_rule_def applied_entry_def split: option.splits)
  with new show ?case unfolding x by (intro exI [of _ "entry # new"]) simp
qed

lemma processData_cases:
  "processData h rules t0 t1 data condition =
     (case process_rules h rules data condition of
        Done (result, applied) \<Rightarrow> Done (success_result t0 t1 data result applied)
      | Throws e \<Rightarrow> Done (failure_result t0 t1 data e)
      | Unsupported \<Rightarrow> Unsupported)"
  by (simp add: processData_def split: outcome.splits prod.splits)

lemma failure_has_error: "member (member (failure_result t0 t1 data e) ''metadata'') ''error'' = JStr (message e)"
  by (simp add: failure_result_def)

lemma sort_insert_key:
  assumes "\<And>y. y \<in> set ys \<Longrightarrow> cmp x y = Inr (Fin (of_int (f x - f y)))"
  shows "sort_insert cmp x ys = Inr (insort_key f x ys)"
  using assms by (induction ys) auto

lemma array_sort_key:
  assumes "\<And>x y. x \<in> set xs \<Longrightarrow> y \<in> set xs \<Longrightarrow> cmp x y = Inr (Fin (of_int (f x - f y)))"
  shows "array_sort cmp xs = Inr (sort_key f xs)"
  using assms
proof (induction xs)
  case Nil
  show ?case by simp
next
  case (Cons x xs)
  have "array_sort cmp xs = Inr (sort_key f xs)"
    by (rule Cons.IH) (simp add: Cons.prems)
  moreover have "sort_insert cmp x (sort_key f xs) = Inr (insort_key f x (sort_key f xs))"
    by (rule sort_insert_key) (simp add: Cons.prems)
  ultimately show ?case by simp
qed

lemma hasRule_getRule: "hasRule rules type \<Longrightarrow> \<exists>r. getRule rules type = Some r"
  unfolding hasRule_def getRule_def
  by (cases "map_of rules type") (simp_all add: map_of_eq_None_iff)

lemma by_priority_registered:
  assumes "hasRule rules (fst a)" "hasRule rules (fst b)"
  shows "by_priority rules a b = Inr (Fin (of_int (entry_priority rules a - entry_priority rules b)))"
proof -
  from assms obtain ra rb where "getRule rules (fst a) = Some ra" "getRule rules (fst b) = Some rb"
    using hasRule_getRule by blast
  then show ?thesis
    by (simp add: by_priority_def entry_priority_def)
qed

lemma ruleEntries_object:
  "ruleEntries rules (JObj kvs) =
     Inr (sort_key (entry_priority rules) (filter (\<lambda>(type, config). hasRule rules type) kvs))"
proof -
  have "array_sort (by_priority rules) (filter (\<lambda>(type, config). hasRule rules type) kvs) =
      Inr (sort_key (entry_priority rules) (filter (\<lambda>(type, config). hasRule rules type) kvs))"
    by (rule array_sort_key) (auto simp: by_priority_registered)
  then show ?thesis by (simp add: ruleEntries_def)
qed

lemma filter_same_key:
  "distinct zs \<Longrightarrow> k \<in> set zs \<Longrightarrow> inj_on f (set zs) \<Longrightarrow> filter (\<lambda>x. f k = f x) zs = [k]"
proof (induction zs)
  case Nil
  then show ?case by simp
next
  case (Cons z zs)
  show ?case
  proof (cases "k = z")
    case True
    have "filter (\<lambda>x. f z = f x) zs = []"
      using Cons.prems by (auto simp: filter_empty_conv inj_on_def)
    with True show ?thesis by simp
  next
    case False
    with Cons.prems have "f k \<noteq> f z" by (auto simp: inj_on_def)
    moreover from Cons False have "filter (\<lambda>x. f k = f x) zs = [k]" by auto
    ultimately show ?thesis by simp
  qed
qed

lemma sort_key_permuted:
  assumes "mset ys = mset xs" "inj_on f (set xs)" "distinct xs"
  shows "sort_key f ys = sort_key f xs"
proof (rule properties_for_sort_key)
  show "mset (sort_key f xs) = mset ys" using assms(1) by simp
  show "sorted (map f (sort_key f xs))" by simp
next
  fix k assume "k \<in> set (sort_key f xs)"
  then have k: "k \<in> set xs" by simp
  have sets: "set ys = set xs" using assms(1) by (rule mset_eq_setD)
  have dy: "distinct ys" using mset_eq_imp_distinct_iff [OF assms(1)] assms(3) by simp
  have "filter (\<lambda>x. f k = f x) (sort_key f xs) = [k]"
  proof (rule filter_same_key)
    show "distinct (sort_key f xs)" using assms(3) by simp
    show "k \<in> set (sort_key f xs)" using k by simp
    show "inj_on f (set (sort_key f xs))" using assms(2) by simp
  qed
  moreover have "filter (\<lambda>x. f k = f x) ys = [k]"
  proof (rule filter_same_key)
    show "distinct ys" by (rule dy)
    show "k \<in> set ys" using k sets by simp
    show "inj_on f (set ys)" using assms(2) sets by simp
  qed
  ultimately show "filter (\<lambda>x. f k = f x) (sort_key f xs) = filter (\<lambda>x. f k = f x) ys"
    by simp
qed

lemma default_registry:
  "autoRegisterRules [] =
     [(''include'', IncludeRule), (''exclude'', ExcludeRule), (''sortBy'', SortRule),
      (''limit'', LimitRule), (''transform'', TransformRule)]"
  by (simp add: autoRegisterRules_def registerRule_def)

lemma default_priority_inj:
  assumes "hasRule (autoRegisterRules []) (fst a)" "hasRule (autoRegisterRules []) (fst b)"
    and "entry_priority (autoRegisterRules []) a = entry_priority (autoRegisterRules []) b"
  shows "fst a = fst b"
  using assms unfolding default_registry hasRule_def entry_priority_def getRule_def
  by (auto split: if_splits)


section \<open>Include and Exclude partition the data\<close>

lemma matchesSingleCriterion_object: "is_object c \<Longrightarrow> \<exists>b. matchesSingleCriterion r c = Inr b"
  by (cases c) (simp_all add: matchesSingleCriterion_def)

lemma some_criterion_objects: "list_all is_object cs \<Longrightarrow> \<exists>b. some_criterion r cs = Inr b"
proof (induction cs)
  case Nil
  show ?case by auto
next
  case (Cons c cs)
  from Cons.prems have "is_object c" by simp
  then obtain b where b: "matchesSingleCriterion r c = Inr b"
    using matchesSingleCriterion_object by blast
  from Cons obtain b' where "some_criterion r cs = Inr b'" by auto
  with b show ?case by auto
qed

lemma matchesRecord_criteria_spec: "is_criteria_spec C \<Longrightarrow> \<exists>b. matchesRecord r C = Inr b"
  by (cases C) (simp_all add: some_criterion_objects matchesSingleCriterion_def)

lemma array_filter_total:
  "(\<And>x. p x = Inr (q x)) \<Longrightarrow> array_filter p xs = Inr (filter q xs)"
  by (induction xs) simp_all

text \<open>
  Claim C3.  For every array \<open>data\<close> and every criteria spec \<open>C\<close> (a criterion object or an
  array of criterion objects), \<open>Include.execute(data, C)\<close> and \<open>Exclude.execute(data, C)\<close>
  both return; Include keeps exactly the records that \<open>matchesRecord\<close> accepts and Exclude
  exactly those it rejects, in the order of \<open>data\<close>.  The two outputs partition \<open>data\<close>:
  their union is the set of records of \<open>data\<close>, they have no record in common, and
  together they hold every record as often as \<open>data\<close> does.
\<close>

theorem include_exclude_partition:
  assumes "is_criteria_spec C"
  shows "\<exists>inc exc.
           IncludeRule_execute (JArr data) C = Inr inc \<and>
           ExcludeRule_execute (JArr data) C = Inr exc \<and>
           inc = filter (\<lambda>r. matchesRecord r C = Inr True) data \<and>
           exc = filter (\<lambda>r. matchesRecord r C = Inr False) data \<and>
           set inc \<union> set exc = set data \<and> set inc \<inter> set exc = {} \<and>
           mset inc + mset exc = mset data"
proof -
  define q where "q r = (matchesRecord r C = Inr True)" for r
  have tot: "matchesRecord r C = Inr (q r)" for r
    using matchesRecord_criteria_spec [OF assms, of r] by (auto simp: q_def)
  have nq: "(matchesRecord r C = Inr False) = (\<not> q r)" for r
    using tot [of r] by auto
  have inc: "IncludeRule_execute (JArr data) C = Inr (filter q data)"
    by (simp add: array_filter_total [where q = q] tot)
  have exc: "ExcludeRule_execute (JArr data) C = Inr (filter (\<lambda>r. \<not> q r) data)"
    by (simp add: array_filter_total [where q = "\<lambda>r. \<not> q r"] tot)
  have "set (filter q data) \<union> set (filter (\<lambda>r. \<not> q r) data) = set data" by auto
  moreover have "set (filter q data) \<inter> set (filter (\<lambda>r. \<not> q r) data) = {}" by auto
  moreover have "mset (filter q data) + mset (filter (\<lambda>r. \<not> q r) data) = mset data"
    by (induction data) simp_all
  ultimately show ?thesis
    unfolding inc exc nq by (simp add: q_def [abs_def])
qed

theorem include_exclude_partition_witness:
  "is_criteria_spec (JObj [(''status'', JStr ''active'')]) \<and>
   (\<exists>inc exc.
      IncludeRule_execute (JArr sampleData) (JObj [(''status'', JStr ''active'')]) = Inr inc \<and>
      ExcludeRule_execute (JArr sampleData) (JObj [(''status'', JStr ''active'')]) = Inr exc \<and>
      length inc = 2 \<and> length exc = 1 \<and>
      set inc \<union> set exc = set sampleData \<and> set inc \<inter> set exc = {})"
proof -
  have c: "is_criteria_spec (JObj [(''status'', JStr ''active'')])" by simp
  from include_exclude_partition [OF c, of sampleData] obtain inc exc where
    h: "IncludeRule_execute (JArr sampleData) (JObj [(''status'', JStr ''active'')]) = Inr inc"
       "ExcludeRule_execute (JArr sampleData) (JObj [(''status'', JStr ''active'')]) = Inr exc"
       "set inc \<union> set exc = set sampleData" "set inc \<inter> set exc = {}"
    by blast
  have "length inc = 2" "length exc = 1"
    using h(1,2) by (auto simp: sampleData_def matchesSingleCriterion_def getNestedProperty_def)
  with c h show ?thesis by blast
qed

section \<open>Limit returns a slice\<close>

lemma truncate_of_nat [simp]: "js_trunc (of_nat n) = int n"
  by (simp add: js_trunc_def)

lemma relative_index_num [simp]: "relative_index len (toNumber h (num n)) = min n len"
  by (simp add: num_def)

lemma num_not_undefined [simp]: "num n \<noteq> JUndefined"
  by (simp add: num_def)

lemma drop_min_length: "drop (min M (length xs)) xs = drop M xs"
  by (cases "M \<le> length xs") (simp_all add: min_def)

lemma skip_num: "skip h (num M) xs = drop M xs"
  by (simp add: skip_def array_slice_def Let_def drop_min_length)

lemma take_first_num: "take_first h (num N) xs = take N xs"
proof -
  have "relative_index (length xs) (toNumber h (num 0)) = 0"
    by (simp del: relative_index_num add: num_def js_trunc_def)
  moreover have "take (min N (length xs)) xs = take N xs"
    by (simp add: min_def)
  ultimately show ?thesis
    by (simp add: take_first_def array_slice_def Let_def)
qed

lemma array_slice_num: "array_slice h xs (num M) (num (M + N)) = take N (drop M xs)"
proof (cases "M < length xs")
  case True
  then have "min (M + N) (length xs) - min M (length xs) = min N (length xs - M)" by auto
  moreover have "take (min N (length xs - M)) (drop M xs) = take N (drop M xs)"
    by (simp add: min_def)
  ultimately show ?thesis
    by (simp add: array_slice_def Let_def drop_min_length)
next
  case False
  then show ?thesis by (simp add: array_slice_def Let_def drop_min_length)
qed

lemma truthy_num: "truthy (num M) = (M \<noteq> 0)"
  by (simp add: num_def)

lemma typeof_num [simp]: "typeof (num n) = ''number''"
  by (simp add: num_def)

text \<open>
  Claim C5.  For a Limit configuration object whose \<open>count\<close> is the non-negative integer
  \<open>N\<close> and whose \<open>offset\<close> is the non-negative integer \<open>M\<close> (an absent offset standing for 0),
  \<open>Limit.execute\<close> returns \<open>data.slice(M, M + N)\<close>; a bare number \<open>N\<close> behaves as
  \<open>{count: N}\<close>.  The slice is the \<open>N\<close> records after the first \<open>M\<close>, as far as there are
  any: with \<open>L\<close> the length of the data it holds \<open>max(0, min(N, L - M))\<close> records when
  \<open>M < L\<close> and none otherwise.  A count of 0 gives the empty array, and running past the end
  of the data is not an error.
\<close>

theorem limit_returns_slice:
  assumes cnt: "map_of kvs ''count'' = Some (num N)"
    and off: "map_of kvs ''offset'' = Some (num M) \<or> (map_of kvs ''offset'' = None \<and> M = 0)"
  shows "LimitRule_execute h (JArr data) (JObj kvs) = Inr (array_slice h data (num M) (num (M + N))) \<and>
         LimitRule_execute h (JArr data) (num N) = LimitRule_execute h (JArr data) (JObj [(''count'', num N)]) \<and>
         array_slice h data (num M) (num (M + N)) = take N (drop M data) \<and>
         int (length (array_slice h data (num M) (num (M + N)))) =
           (if M < length data then max 0 (min (int N) (int (length data) - int M)) else 0) \<and>
         (N = 0 \<longrightarrow> LimitRule_execute h (JArr data) (JObj kvs) = Inr [])"
proof -
  have offset: "(if truthy (member (JObj kvs) ''offset'') then member (JObj kvs) ''offset'' else num 0) = num M"
    using off by (auto simp: truthy_num)
  have "LimitRule_execute h (JArr data) (JObj kvs) =
      Inr (take_first h (num N)
             (skip h (if truthy (member (JObj kvs) ''offset'') then member (JObj kvs) ''offset'' else num 0) data))"
    using cnt by (simp add: Let_def)
  then have exec: "LimitRule_execute h (JArr data) (JObj kvs) = Inr (take N (drop M data))"
    unfolding offset by (simp add: skip_num take_first_num)
  have bare: "LimitRule_execute h (JArr data) (num N) = Inr (take N data)"
    using skip_num [of h 0 data] by (simp add: take_first_num)
  have obj: "LimitRule_execute h (JArr data) (JObj [(''count'', num N)]) = Inr (take N data)"
    using skip_num [of h 0 data] by (simp add: take_first_num Let_def)
  have len: "int (length (take N (drop M data))) =
      (if M < length data then max 0 (min (int N) (int (length data) - int M)) else 0)"
    by auto
  show ?thesis
    using exec bare obj len by (simp add: array_slice_num)
qed

theorem limit_returns_slice_witness:
  "map_of [(''count'', num 2), (''offset'', num 1)] ''count'' = Some (num 2) \<and>
   map_of [(''count'', num 2), (''offset'', num 1)] ''offset'' = Some (num 1) \<and>
   LimitRule_execute sample_host (JArr sampleData) (JObj [(''count'', num 2), (''offset'', num 1)]) =
     Inr (tl sampleData) \<and>
   LimitRule_execute sample_host (JArr sampleData) (JObj [(''count'', num 2), (''offset'', num 7)]) = Inr []"
proof -
  have a: "map_of [(''count'', num 2), (''offset'', num 1)] ''count'' = Some (num 2)" by simp
  have b: "map_of [(''count'', num 2), (''offset'', num 1)] ''offset'' = Some (num 1)" by simp
  have a': "map_of [(''count'', num 2), (''offset'', num 7)] ''count'' = Some (num 2)" by simp
  have b': "map_of [(''count'', num 2), (''offset'', num 7)] ''offset'' = Some (num 7)" by simp
  have "LimitRule_execute sample_host (JArr sampleData) (JObj [(''count'', num 2), (''offset'', num 1)]) =
      Inr (take 2 (drop 1 sampleData))"
    using limit_returns_slice [OF a disjI1 [OF b], of sample_host sampleData] by simp
  moreover have "LimitRule_execute sample_host (JArr sampleData) (JObj [(''count'', num 2), (''offset'', num 7)]) =
      Inr (take 2 (drop 7 sampleData))"
    using limit_returns_slice [OF a' disjI1 [OF b'], of sample_host sampleData] by simp
  ultimately show ?thesis
    using a b by (simp add: sampleData_def drop_Suc)
qed

section \<open>getNestedProperty and its default value\<close>

lemma default_is_kept:
  "\<not> truthy d \<or> (\<forall>k \<in> set ks. member d k = JUndefined) \<Longrightarrow>
   foldl (\<lambda>current key. if truthy current \<and> member current key \<noteq> JUndefined
                          then member current key else d) d ks = d"
  by (induction ks) auto

text \<open>
  When a segment of the path is missing, or the value reached is not traversable, the
  result is the default value, provided that the default value itself has none of the
  segments that follow (as is the case for \<open>undefined\<close>, the default every caller in the
  source uses).
\<close>

lemma getNestedProperty_missing_segment:
  assumes path: "split_on CHR ''.'' path = ks1 @ k # ks2"
    and walk: "foldl (\<lambda>current key. if truthy current \<and> member current key \<noteq> JUndefined
                                    then member current key else d) obj ks1 = c"
    and missing: "\<not> truthy c \<or> member c k = JUndefined"
    and dflt: "\<not> truthy d \<or> (\<forall>k \<in> set ks2. member d k = JUndefined)"
  shows "getNestedProperty obj path d = d"
  using walk missing default_is_kept [OF dflt]
  by (auto simp: getNestedProperty_def path)

text \<open>
  Claim C8.  \<open>getNestedProperty\<close> is to return the default value whenever a segment of the
  path is missing.  The walk does not stop at the missing segment: it goes on inside the
  default value.  For the object \<open>{a: {b: 1}}\<close>, the path \<open>a.c.d\<close> and the default value
  \<open>{d: "inside"}\<close>, the segment \<open>c\<close> is missing, and the result is \<open>"inside"\<close>, not the
  default value.
\<close>

theorem getNestedProperty_walks_into_default:
  "getNestedProperty (JObj [(''a'', JObj [(''b'', num 1)])]) ''a.c.d'' (JObj [(''d'', JStr ''inside'')])
     = JStr ''inside'' \<and>
   getNestedProperty (JObj [(''a'', JObj [(''b'', num 1)])]) ''a.c.d'' (JObj [(''d'', JStr ''inside'')])
     \<noteq> JObj [(''d'', JStr ''inside'')]"
  by (simp add: getNestedProperty_def)

section \<open>CSV export\<close>

lemma csv_cells_objects:
  "\<not> nullish r \<Longrightarrow> csv_cells h r names = Inr (map (\<lambda>field. csv_cell h (member r field)) names)"
proof (induction names)
  case Nil
  show ?case by simp
next
  case (Cons field rest)
  then show ?case by (cases r) simp_all
qed

lemma csv_rows_objects:
  "list_all (\<lambda>r. \<not> nullish r) data \<Longrightarrow>
   csv_rows h delimiter names data =
     Inr (map (\<lambda>r. join_with delimiter (map (\<lambda>field. csv_cell h (member r field)) names)) data)"
  by (induction data) (simp_all add: csv_cells_objects)

text \<open>
  The text of a non-empty array without \<open>null\<close> records: the header, then one row for each
  record, every row with one cell for each field name of the header.  A cell is the empty
  quoted string when the record lacks the field or holds \<open>null\<close> there, and otherwise the
  text of the value between quotes, its quotes doubled.  The field names of the header
  are quoted as they are.
\<close>

lemma convertToCSV_objects:
  assumes "data \<noteq> []" and "list_all (\<lambda>r. \<not> nullish r) data"
  shows "convertToCSV h (JArr data) delimiter =
     Inr (join_with [CHR 0x0A]
           (join_with delimiter (map quoted (collect_fields data)) #
            map (\<lambda>r. join_with delimiter
                   (map (\<lambda>field. csv_cell h (member r field)) (collect_fields data))) data))"
  using assms by (simp add: convertToCSV_def csv_rows_objects Let_def)

lemma set_foldl_set_add: "set (foldl set_add names ks) = set names \<union> set ks"
  by (induction ks arbitrary: names) (auto simp: set_add_def)

lemma set_collect_fields_from:
  "set (foldl (\<lambda>names r.
              if typeof r = ''object'' \<and> r \<noteq> JNull
              then foldl set_add names (Object_keys r) else names) acc data)
   = set acc \<union> (\<Union>r \<in> {r \<in> set data. typeof r = ''object'' \<and> r \<noteq> JNull}. set (Object_keys r))"
  by (induction data arbitrary: acc) (auto simp: set_foldl_set_add)

text \<open>The header holds the field names of all the records, each once.\<close>

lemma set_collect_fields:
  "set (collect_fields data) =
     (\<Union>r \<in> {r \<in> set data. typeof r = ''object'' \<and> r \<noteq> JNull}. set (Object_keys r))"
  by (simp add: collect_fields_def set_collect_fields_from)

lemma distinct_foldl_set_add: "distinct names \<Longrightarrow> distinct (foldl set_add names ks)"
  by (induction ks arbitrary: names) (auto simp: set_add_def)

lemma distinct_collect_fields: "distinct (collect_fields data)"
proof -
  have "distinct acc \<Longrightarrow> distinct (foldl (\<lambda>names r.
              if typeof r = ''object'' \<and> r \<noteq> JNull
              then foldl set_add names (Object_keys r) else names) acc data)" for acc
    by (induction data arbitrary: acc) (auto simp: distinct_foldl_set_add)
  then show ?thesis by (simp add: collect_fields_def)
qed

text \<open>
  Claim C10.  The CSV export is to quote every header and data field and to escape the
  double quotes inside by doubling them.  The data cells are escaped; the field names of
  the header are not.  For the single record \<open>{'a"b': 'c"d'}\<close> the export is the header
  \<open>"a"b"\<close>, in which the quote of the field name stands alone, and the row \<open>"c""d"\<close>.
\<close>

theorem csv_header_not_escaped:
  "exportResult sample_host
     (JObj [(''result'', JArr [JObj [(''a'' @ [CHR 0x22] @ ''b'', JStr (''c'' @ [CHR 0x22] @ ''d''))]])]) ''csv''
   = Inr ([CHR 0x22] @ ''a'' @ [CHR 0x22] @ ''b'' @ [CHR 0x22] @ [CHR 0x0A] @
          [CHR 0x22] @ ''c'' @ [CHR 0x22, CHR 0x22] @ ''d'' @ [CHR 0x22])"
  by (simp add: exportResult_def toLowerCase_def lower_char_def convertToCSV_def collect_fields_def
      Object_keys_def set_add_def quoted_def csv_cell_def double_quotes_def)

section \<open>The metadata of a successful run\<close>

text \<open>
  Claim C9, as amended.  When \<open>processData\<close> returns a result without an \<open>error\<close> field, the
  input is an array and the result is the object \<open>{result, metadata}\<close> whose metadata has
  exactly the four fields \<open>inputCount\<close> (the length of the input array), \<open>outputCount\<close>
  (the length of the result array), \<open>processingTime\<close> (the rounded difference of the two
  clock readings) and \<open>appliedRules\<close>; the entries of \<open>appliedRules\<close> are, in execution
  order, one object \<open>{type, config, priority}\<close> for each rule entry of the condition.
\<close>

theorem processData_success_metadata:
  assumes ret: "processData h rules t0 t1 data condition = Done r"
    and ok: "member (member r ''metadata'') ''error'' = JUndefined"
  shows "\<exists>xs entries result applied.
           data = JArr xs \<and>
           ruleEntries rules condition = Inr entries \<and>
           r = JObj [(''result'', JArr result),
                     (''metadata'', JObj [(''inputCount'', num (length xs)),
                                          (''outputCount'', num (length result)),
                                          (''processingTime'', processingTime t0 t1),
                                          (''appliedRules'', JArr applied)])] \<and>
           list_all2 (applied_entry rules) entries applied"
proof -
  from ret ok obtain result applied where
    pr: "process_rules h rules data condition = Done (result, applied)"
    and r: "r = success_result t0 t1 data result applied"
    by (auto simp: processData_cases failure_has_error split: outcome.splits prod.splits)
  from pr obtain xs where xs: "data = JArr xs"
    by (cases data) (auto simp: process_rules_def)
  from pr obtain entries where
    entries: "ruleEntries rules condition = Inr entries"
    and run: "run_rules h rules entries xs [] = Done (result, applied)"
    by (auto simp: process_rules_def xs Let_def split: if_splits sum.splits)
  from run_rules_applied [OF run] have "list_all2 (applied_entry rules) entries applied" by simp
  with xs entries r show ?thesis
    by (simp add: success_result_def)
qed

lemma sample_limit_run:
  "processData sample_host (autoRegisterRules []) 0 1 (JArr sampleData) (JObj [(''limit'', num 1)]) =
     Done (JObj [(''result'', JArr [hd sampleData]),
                 (''metadata'', JObj [(''inputCount'', num 3),
                                      (''outputCount'', num 1),
                                      (''processingTime'', num 1),
                                      (''appliedRules'',
                                         JArr [JObj [(''type'', JStr ''limit''), (''config'', num 1),
                                                     (''priority'', num 20)]])])])"
  by code_simp

theorem processData_success_metadata_witness:
  "processData sample_host (autoRegisterRules []) 0 1 (JArr sampleData) (JObj [(''limit'', num 1)]) =
     Done (JObj [(''result'', JArr [hd sampleData]),
                 (''metadata'', JObj [(''inputCount'', num 3),
                                      (''outputCount'', num 1),
                                      (''processingTime'', num 1),
                                      (''appliedRules'',
                                         JArr [JObj [(''type'', JStr ''limit''), (''config'', num 1),
                                                     (''priority'', num 20)]])])]) \<and>
   (\<exists>entries applied.
      ruleEntries (autoRegisterRules []) (JObj [(''limit'', num 1)]) = Inr entries \<and>
      list_all2 (applied_entry (autoRegisterRules [])) entries applied \<and>
      applied = [JObj [(''type'', JStr ''limit''), (''config'', num 1), (''priority'', num 20)]])"
proof -
  have ok: "member (member (JObj [(''result'', JArr [hd sampleData]),
                 (''metadata'', JObj [(''inputCount'', num 3),
                                      (''outputCount'', num 1),
                                      (''processingTime'', num 1),
                                      (''appliedRules'',
                                         JArr [JObj [(''type'', JStr ''limit''), (''config'', num 1),
                                                     (''priority'', num 20)]])])]) ''metadata'') ''error'' = JUndefined"
    by simp
  from processData_success_metadata [OF sample_limit_run ok] sample_limit_run
  show ?thesis by auto
qed

text \<open>
  Claim C9 as stated: the entries of \<open>appliedRules\<close> are pairs \<open>{type, priority}\<close>.  For the
  condition \<open>{limit: 1}\<close> the entry is \<open>{type: "limit", config: 1, priority: 20}\<close>: it holds
  the configuration of the rule as well.
\<close>

theorem appliedRules_entries_hold_config:
  "processData sample_host (autoRegisterRules []) 0 1 (JArr sampleData) (JObj [(''limit'', num 1)]) =
     Done (JObj [(''result'', JArr [hd sampleData]),
                 (''metadata'', JObj [(''inputCount'', num 3),
                                      (''outputCount'', num 1),
                                      (''processingTime'', num 1),
                                      (''appliedRules'',
                                         JArr [JObj [(''type'', JStr ''limit''), (''config'', num 1),
                                                     (''priority'', num 20)]])])]) \<and>
   Object_keys (JObj [(''type'', JStr ''limit''), (''config'', num 1), (''priority'', num 20)])
     \<noteq> [''type'', ''priority'']"
  using sample_limit_run by (simp add: Object_keys_def)

section \<open>processData does not throw\<close>



section \<open>Rules run in the order of their priorities\<close>

lemma deepEquals_string: "deepEquals v (JStr s) = (v = JStr s)"
  by (cases v) auto

lemma matches_status_active:
  "matchesRecord r (JArr [JObj [(''status'', JStr ''active'')]]) =
     Inr (getNestedProperty r ''status'' JUndefined = JStr ''active'')"
  by (simp add: matchesSingleCriterion_def deepEquals_string)

lemma include_status_active:
  "executeRule h (autoRegisterRules []) ''include'' (JArr xs) (JArr [JObj [(''status'', JStr ''active'')]]) =
     Done (filter (\<lambda>r. getNestedProperty r ''status'' JUndefined = JStr ''active'') xs)"
proof -
  have v: "isValid (validate IncludeRule (JArr [JObj [(''status'', JStr ''active'')]]))"
    by (simp add: validateCriteriaConfig_def validation_result_def indexed_def)
  have "IncludeRule_execute (JArr xs) (JArr [JObj [(''status'', JStr ''active'')]]) =
      Inr (filter (\<lambda>r. getNestedProperty r ''status'' JUndefined = JStr ''active'') xs)"
    by (simp add: array_filter_total [where q = "\<lambda>r. getNestedProperty r ''status'' JUndefined = JStr ''active''"]
        matchesSingleCriterion_def deepEquals_string)
  with v show ?thesis
    by (simp add: executeRule_def default_registry getRule_def)
qed

lemma limit_one:
  "executeRule h (autoRegisterRules []) ''limit'' (JArr xs) (num 1) = Done (take 1 xs)"
proof -
  have v: "isValid (validate LimitRule (num 1))"
    by (simp add: LimitRule_validate_def validation_result_def num_def)
  have "LimitRule_execute h (JArr xs) (num 1) = Inr (take 1 xs)"
    using skip_num [of h 0 xs] by (simp add: take_first_num)
  with v show ?thesis
    by (simp add: executeRule_def default_registry getRule_def)
qed

lemma include_before_limit:
  "processData h (autoRegisterRules []) t0 t1 (JArr xs)
     (JObj [(''limit'', num 1), (''include'', JArr [JObj [(''status'', JStr ''active'')]])]) =
   Done (success_result t0 t1 (JArr xs)
           (take 1 (filter (\<lambda>r. getNestedProperty r ''status'' JUndefined = JStr ''active'') xs))
           [JObj [(''type'', JStr ''include''), (''config'', JArr [JObj [(''status'', JStr ''active'')]]),
                  (''priority'', num 1)],
            JObj [(''type'', JStr ''limit''), (''config'', num 1), (''priority'', num 20)]])"
proof -
  have e: "ruleEntries (autoRegisterRules [])
      (JObj [(''limit'', num 1), (''include'', JArr [JObj [(''status'', JStr ''active'')]])]) =
      Inr [(''include'', JArr [JObj [(''status'', JStr ''active'')]]), (''limit'', num 1)]"
    by code_simp
  have a1: "applied_rule (autoRegisterRules []) ''include'' c =
      Inr (JObj [(''type'', JStr ''include''), (''config'', c), (''priority'', num 1)])" for c
    by (simp add: applied_rule_def default_registry getRule_def num_def)
  have a2: "applied_rule (autoRegisterRules []) ''limit'' c =
      Inr (JObj [(''type'', JStr ''limit''), (''config'', c), (''priority'', num 20)])" for c
    by (simp add: applied_rule_def default_registry getRule_def num_def)
  show ?thesis
    by (simp add: processData_cases process_rules_def e include_status_active limit_one a1 a2
        del: One_nat_def)
qed



section \<open>Computed fields\<close>

lemma compute_value_not_unsupported: "compute_value h c r \<noteq> Unsupported"
  by (cases c) (auto split: option.splits)

lemma compute_field_object:
  "compute_field h r (JObj res) (key, c) = Done (JObj (AList.update key (stored_value h c r) res))"
  using compute_value_not_unsupported [of h c r]
  by (cases "compute_value h c r") (simp_all add: compute_field_def stored_value_def)

lemma add_computed_object:
  "add_computed h r (JObj res) entries =
     Done (JObj (foldl (\<lambda>acc (key, c). AList.update key (stored_value h c r) acc) res entries))"
proof (induction entries arbitrary: res)
  case Nil
  show ?case by simp
next
  case (Cons e entries)
  obtain key c where e: "e = (key, c)" by (cases e)
  show ?case by (simp add: e compute_field_object Cons)
qed

lemma map_of_foldl_update_other:
  "key \<notin> set (map fst entries) \<Longrightarrow>
   map_of (foldl (\<lambda>acc (k, c). AList.update k (g c) acc) res entries) key = map_of res key"
proof (induction entries arbitrary: res)
  case Nil
  show ?case by simp
next
  case (Cons e entries)
  obtain k c where e: "e = (k, c)" by (cases e)
  with Cons.prems have "k \<noteq> key" "key \<notin> set (map fst entries)" by auto
  then show ?case by (simp add: e Cons.IH update_conv')
qed

lemma map_of_foldl_update:
  "distinct (map fst entries) \<Longrightarrow> (key, c) \<in> set entries \<Longrightarrow>
   map_of (foldl (\<lambda>acc (k, c). AList.update k (g c) acc) res entries) key = Some (g c)"
proof (induction entries arbitrary: res)
  case Nil
  then show ?case by simp
next
  case (Cons e entries)
  obtain k c' where e: "e = (k, c')" by (cases e)
  show ?case
  proof (cases "(key, c) = e")
    case True
    with Cons.prems e have "key \<notin> set (map fst entries)" by auto
    then show ?thesis
      using True e by (simp add: map_of_foldl_update_other update_conv')
  next
    case False
    with Cons.prems have "(key, c) \<in> set entries" "distinct (map fst entries)" by auto
    then show ?thesis by (simp add: e Cons.IH)
  qed
qed

lemma select_fields_strings:
  "list_all (\<lambda>x. typeof x = ''string'') items \<Longrightarrow> \<exists>sel. select_fields r items acc = Inr (JObj sel)"
proof (induction items arbitrary: acc)
  case Nil
  show ?case by simp
next
  case (Cons x items)
  then obtain s where "x = JStr s" by (cases x) auto
  with Cons show ?case by (simp add: Let_def)
qed

lemma rename_field_object:
  "\<exists>res'. rename_field h (JObj res) (oldKey, newKey) = Done (JObj res') \<and>
     (key \<noteq> oldKey \<and> key \<noteq> js_String h newKey \<longrightarrow> map_of res' key = map_of res key)"
  by (cases "oldKey \<in> fst ` set res") (simp_all add: rename_field_def update_conv' delete_conv')

lemma rename_fields_object:
  "\<exists>res'. rename_fields h (JObj res) entries = Done (JObj res') \<and>
     (key \<notin> set (map fst entries) \<and> key \<notin> set (map (\<lambda>e. js_String h (snd e)) entries)
        \<longrightarrow> map_of res' key = map_of res key)"
proof (induction entries arbitrary: res)
  case Nil
  show ?case by simp
next
  case (Cons e entries)
  obtain oldKey newKey where e: "e = (oldKey, newKey)" by (cases e)
  from rename_field_object [of h res oldKey newKey key] obtain res1 where
    r1: "rename_field h (JObj res) (oldKey, newKey) = Done (JObj res1)"
    "key \<noteq> oldKey \<and> key \<noteq> js_String h newKey \<longrightarrow> map_of res1 key = map_of res key" by blast
  from Cons [of res1] obtain res' where
    r2: "rename_fields h (JObj res1) entries = Done (JObj res')"
    "key \<notin> set (map fst entries) \<and> key \<notin> set (map (\<lambda>e. js_String h (snd e)) entries)
        \<longrightarrow> map_of res' key = map_of res1 key" by blast
  show ?case
    using r1 r2 by (auto simp: e)
qed

lemma indexed_messages_empty:
  assumes "concat (map (\<lambda>(index, x). if P x then [msg index] else []) (indexed xs)) = []"
  shows "list_all (\<lambda>x. \<not> P x) xs"
proof -
  have "\<not> P x" if "x \<in> set xs" for x
  proof -
    from that obtain i where i: "i < length xs" "xs ! i = x" by (auto simp: in_set_conv_nth)
    then have "(i, x) \<in> set (indexed xs)"
      unfolding indexed_def in_set_zip by (intro exI [of _ i]) simp
    with assms have "(if P x then [msg i] else []) = []" by fastforce
    then show ?thesis by (simp split: if_splits)
  qed
  then show ?thesis by (simp add: list_all_iff)
qed

lemma TransformRule_valid:
  assumes "isValid (TransformRule_validate config)"
  shows "truthy config \<and> typeof config = ''object'' \<and>
         (nullish (member config ''fields'') \<or>
            (\<exists>items. member config ''fields'' = JArr items \<and> list_all (\<lambda>x. typeof x = ''string'') items)) \<and>
         (nullish (member config ''computed'') \<or> typeof (member config ''computed'') = ''object'') \<and>
         (nullish (member config ''rename'') \<or> typeof (member config ''rename'') = ''object'')"
proof -
  from assms have c: "truthy config" "typeof config = ''object''"
    by (auto simp: TransformRule_validate_def split: if_splits)
  let ?sel = "member config ''fields''"
  from assms c have sel: "(if \<not> nullish ?sel then
                  (case ?sel of
                     JArr items \<Rightarrow>
                       concat (map (\<lambda>(index, field).
                                      if typeof field \<noteq> ''string''
                                      then [''Transform rule fields['' @ nat_to_string index @ ''] must be a string'']
                                      else [])
                                (indexed items))
                   | _ \<Rightarrow> [''Transform rule fields must be an array''])
                else []) = []"
    and comp: "nullish (member config ''computed'') \<or> typeof (member config ''computed'') = ''object''"
    and ren: "nullish (member config ''rename'') \<or> typeof (member config ''rename'') = ''object''"
    by (auto simp: TransformRule_validate_def validation_result_def Let_def split: if_splits)
  have "nullish ?sel \<or> (\<exists>items. ?sel = JArr items \<and> list_all (\<lambda>x. typeof x = ''string'') items)"
  proof (cases "nullish ?sel")
    case False
    with sel obtain items where items: "?sel = JArr items"
      by (cases ?sel) auto
    with sel False have "concat (map (\<lambda>(index, field).
                                      if typeof field \<noteq> ''string''
                                      then [''Transform rule fields['' @ nat_to_string index @ ''] must be a string'']
                                      else [])
                                (indexed items)) = []" by simp
    from indexed_messages_empty [OF this] items show ?thesis by simp
  qed simp
  with c comp ren show ?thesis by simp
qed

lemma js_get_object: "truthy config \<Longrightarrow> typeof config = ''object'' \<Longrightarrow> js_get config k = Inr (member config k)"
  by (cases config) simp_all

lemma stored_value_function:
  "stored_value h (JFun f) r = (case call_fn h f r of Some v \<Rightarrow> v | None \<Rightarrow> JNull)"
  by (simp add: stored_value_def split: option.splits)

lemma transformRecord_object:
  assumes valid: "isValid (TransformRule_validate config)"
    and computed: "member config ''computed'' = JObj entries"
    and keys: "distinct (map fst entries)"
    and entry: "(key, JFun f) \<in> set entries"
    and rename: "nullish (member config ''rename'') \<or>
                 (\<exists>rens. member config ''rename'' = JObj rens \<and> key \<notin> set (map fst rens) \<and>
                         key \<notin> set (map (\<lambda>e. js_String h (snd e)) rens))"
  shows "\<exists>res. transformRecord h (JObj kvs) config = Done (JObj res) \<and>
           map_of res key = Some (case call_fn h f (JObj kvs) of Some v \<Rightarrow> v | None \<Rightarrow> JNull)"
proof -
  note v = TransformRule_valid [OF valid]
  from v have g: "js_get config ''fields'' = Inr (member config ''fields'')"
    by (simp add: js_get_object)
  have "\<exists>s0. (if truthy (member config ''fields'') then apply_fields (JObj kvs) (member config ''fields'')
               else Inr (deepClone (JObj kvs))) = Inr (JObj s0)"
  proof (cases "truthy (member config ''fields'')")
    case True
    then have "\<not> nullish (member config ''fields'')" by (cases "member config ''fields''") auto
    with v obtain items where items: "member config ''fields'' = JArr items"
      "list_all (\<lambda>x. typeof x = ''string'') items" by auto
    from select_fields_strings [OF items(2), of "JObj kvs" "[]"] True items(1)
    show ?thesis by auto
  next
    case False
    have "deepClone (JObj kvs) = JObj kvs" by (rule deepClone_id)
    with False show ?thesis by (simp del: deepClone.simps)
  qed
  then obtain s0 where s0: "(if truthy (member config ''fields'') then apply_fields (JObj kvs) (member config ''fields'')
               else Inr (deepClone (JObj kvs))) = Inr (JObj s0)" by blast
  define s1 where "s1 = foldl (\<lambda>acc (k, c). AList.update k (stored_value h c (JObj kvs)) acc) s0 entries"
  have c1: "add_computed h (JObj kvs) (JObj s0) entries = Done (JObj s1)"
    by (simp add: add_computed_object s1_def)
  have m1: "map_of s1 key = Some (stored_value h (JFun f) (JObj kvs))"
    unfolding s1_def using keys entry
    by (rule map_of_foldl_update [where g = "\<lambda>c. stored_value h c (JObj kvs)"])
  have "\<exists>res. (let rn = member config ''rename''
           in if truthy rn
              then (case Object_entries rn of
                      Inl e \<Rightarrow> Throws e
                    | Inr entries \<Rightarrow> rename_fields h (JObj s1) entries)
              else Done (JObj s1)) = Done (JObj res) \<and> map_of res key = map_of s1 key"
  proof (cases "nullish (member config ''rename'')")
    case True
    then have "\<not> truthy (member config ''rename'')" by (cases "member config ''rename''") auto
    then show ?thesis by simp
  next
    case False
    with rename obtain rens where rens: "member config ''rename'' = JObj rens"
      "key \<notin> set (map fst rens)" "key \<notin> set (map (\<lambda>e. js_String h (snd e)) rens)" by blast
    from rename_fields_object [of h s1 rens key] rens(2,3) obtain res where
      "rename_fields h (JObj s1) rens = Done (JObj res)" "map_of res key = map_of s1 key" by blast
    with rens(1) show ?thesis by simp
  qed
  then obtain res where res: "(let rn = member config ''rename''
           in if truthy rn
              then (case Object_entries rn of
                      Inl e \<Rightarrow> Throws e
                    | Inr entries \<Rightarrow> rename_fields h (JObj s1) entries)
              else Done (JObj s1)) = Done (JObj res)" "map_of res key = map_of s1 key" by blast
  have "transformRecord h (JObj kvs) config = Done (JObj res)"
    unfolding transformRecord_def g using s0 c1 res(1)
    by (simp add: computed del: deepClone.simps)
  with res(2) m1 show ?thesis by (simp add: stored_value_function)
qed

lemma array_map_all:
  assumes "\<And>x. x \<in> set xs \<Longrightarrow> \<exists>y. f x = Done y \<and> P x y"
  shows "\<exists>ys. array_map f xs = Done ys \<and> list_all2 P xs ys"
  using assms
proof (induction xs)
  case Nil
  show ?case by simp
next
  case (Cons x xs)
  from Cons.prems obtain y where y: "f x = Done y" "P x y" by auto
  from Cons obtain ys where ys: "array_map f xs = Done ys" "list_all2 P xs ys" by auto
  from y ys show ?case by simp
qed



section \<open>Sort is stable\<close>

lemma comes_before_Cons:
  "comes_before (y # zs) i j = ((y = i \<and> j \<in> set zs) \<or> comes_before zs i j)"
proof
  assume "comes_before (y # zs) i j"
  then obtain as bs cs where d: "y # zs = as @ i # bs @ j # cs"
    unfolding comes_before_def by blast
  show "(y = i \<and> j \<in> set zs) \<or> comes_before zs i j"
  proof (cases as)
    case Nil
    with d show ?thesis by auto
  next
    case (Cons a as')
    with d have "zs = as' @ i # bs @ j # cs" by simp
    then show ?thesis unfolding comes_before_def by blast
  qed
next
  assume "(y = i \<and> j \<in> set zs) \<or> comes_before zs i j"
  then show "comes_before (y # zs) i j"
  proof
    assume a: "y = i \<and> j \<in> set zs"
    then obtain bs cs where "zs = bs @ j # cs" by (auto dest: split_list)
    with a have "y # zs = [] @ i # bs @ j # cs" by simp
    then show ?thesis unfolding comes_before_def by blast
  next
    assume "comes_before zs i j"
    then obtain as bs cs where "zs = as @ i # bs @ j # cs"
      unfolding comes_before_def by blast
    then have "y # zs = (y # as) @ i # bs @ j # cs" by simp
    then show ?thesis unfolding comes_before_def by blast
  qed
qed

lemma comes_before_Nil [simp]: "\<not> comes_before [] i j"
  by (simp add: comes_before_def)

lemma set_insert_before [simp]: "set (insert_before gt x ys) = insert x (set ys)"
  by (induction ys) auto

lemma set_insertion_sort [simp]: "set (insertion_sort gt xs) = set xs"
  by (induction xs) auto

lemma mset_insert_before [simp]: "mset (insert_before gt x ys) = add_mset x (mset ys)"
  by (induction ys) auto

lemma mset_insertion_sort [simp]: "mset (insertion_sort gt xs) = mset xs"
  by (induction xs) auto

text \<open>An item is inserted before every item of the list that it is not greater than.\<close>

lemma insert_before_first:
  "j \<in> set ys \<Longrightarrow> \<not> gt z j \<Longrightarrow> comes_before (insert_before gt z ys) z j"
proof (induction ys)
  case Nil
  then show ?case by simp
next
  case (Cons y ys)
  show ?case
  proof (cases "gt z y")
    case True
    with Cons.prems have "j \<in> set ys" by auto
    with Cons have "comes_before (insert_before gt z ys) z j" by simp
    with True show ?thesis by (simp add: comes_before_Cons)
  next
    case False
    with Cons.prems show ?thesis by (simp add: comes_before_Cons)
  qed
qed

text \<open>An insertion keeps the order of the items of the list.\<close>

lemma insert_before_keeps:
  "comes_before ys i j \<Longrightarrow> comes_before (insert_before gt z ys) i j"
proof (induction ys)
  case Nil
  then show ?case by simp
next
  case (Cons y ys)
  then show ?case by (auto simp: comes_before_Cons)
qed

lemma insertion_sort_stable:
  "comes_before zs i j \<Longrightarrow> \<not> gt i j \<Longrightarrow> comes_before (insertion_sort gt zs) i j"
proof (induction zs)
  case Nil
  then show ?case by simp
next
  case (Cons z zs)
  from Cons.prems(1) consider "z = i" "j \<in> set zs" | "comes_before zs i j"
    by (auto simp: comes_before_Cons)
  then show ?case
  proof cases
    case 1
    then have "j \<in> set (insertion_sort gt zs)" by simp
    then have "comes_before (insert_before gt i (insertion_sort gt zs)) i j"
      using Cons.prems(2) by (rule insert_before_first)
    with 1 show ?thesis by simp
  next
    case 2
    with Cons have "comes_before (insertion_sort gt zs) i j" by simp
    then show ?thesis by (simp add: insert_before_keeps)
  qed
qed

lemma insert_before_map:
  "map g (insert_before (\<lambda>i j. gt (g i) (g j)) i js) = insert_before gt (g i) (map g js)"
  by (induction js) auto

lemma insertion_sort_map:
  "map g (insertion_sort (\<lambda>i j. gt (g i) (g j)) js) = insertion_sort gt (map g js)"
  by (induction js) (simp_all add: insert_before_map)

lemma comes_before_upt: "i < j \<Longrightarrow> j < n \<Longrightarrow> comes_before [0..<n] i j"
proof -
  assume a: "i < j" "j < n"
  then have "[0..<n] = [0..<i] @ [i..<n]" using upt_add_eq_append [of 0 i "n - i"] by simp
  also have "[i..<n] = i # [Suc i..<n]" using a by (simp add: upt_conv_Cons)
  also have "[Suc i..<n] = [Suc i..<j] @ [j..<n]" using a upt_add_eq_append [of "Suc i" j "n - j"] by simp
  also have "[j..<n] = j # [Suc j..<n]" using a by (simp add: upt_conv_Cons)
  finally show ?thesis unfolding comes_before_def by blast
qed

lemma sort_insert_total:
  assumes "\<And>a b. cmp a b = Inr (c a b)"
  shows "sort_insert cmp x ys = Inr (insert_before (\<lambda>a b. positive (c a b)) x ys)"
  by (induction ys) (simp_all add: assms)

lemma array_sort_total:
  assumes "\<And>a b. cmp a b = Inr (c a b)"
  shows "array_sort cmp xs = Inr (insertion_sort (\<lambda>a b. positive (c a b)) xs)"
  by (induction xs) (simp_all add: sort_insert_total [where c = c] assms)

lemma multiKeyComparator_total:
  "list_all (\<lambda>k. typeof k = ''string'') keys \<Longrightarrow> \<exists>v. multiKeyComparator h keys a b = Inr v"
proof (induction keys)
  case Nil
  show ?case by simp
next
  case (Cons k keys)
  then obtain s where "k = JStr s" by (cases k) auto
  with Cons show ?case by (auto simp: Let_def)
qed

lemma sortCompare_total:
  assumes "list_all (\<lambda>k. typeof k = ''string'') keys"
  shows "\<exists>v. sortCompare (multiKeyComparator h keys) a b = Inr v"
  using multiKeyComparator_total [OF assms, of h a b] by (auto simp: sortCompare_def)


lemma sample_sort:
  "SortRule_execute sample_host (JArr sampleData) (JStr ''name'') =
     Inr [sampleData ! 2, sampleData ! 0, sampleData ! 1]"
  by code_simp


section \<open>The rules write only cells they have allocated\<close>

lemma prefix_alloc: "prefix hp0 hp \<Longrightarrow> alloc c hp = (a, hp') \<Longrightarrow> prefix hp0 hp' \<and> a = length hp"
  by (auto simp: alloc_def)

lemma prefix_write_cell:
  "prefix hp0 hp \<Longrightarrow> length hp0 \<le> a \<Longrightarrow> prefix hp0 (write_cell a c hp)"
  by (auto simp: prefix_def write_cell_def list_update_append)

lemma length_write_cell [simp]: "length (write_cell a c hp) = length hp"
  by (simp add: write_cell_def)

lemma store_extends:
  "prefix hp (snd (store_value v hp)) \<and> fresh_from (length hp) (fst (store_value v hp))"
  "prefix hp (snd (store_items xs hp)) \<and> list_all (fresh_from (length hp)) (fst (store_items xs hp))"
  "prefix hp (snd (store_props kvs hp)) \<and> list_all (\<lambda>p. fresh_from (length hp) (snd p)) (fst (store_props kvs hp))"
proof (induction v hp and xs hp and kvs hp rule: store_value_store_items_store_props.induct)
  case (7 xs hp)
  then show ?case
    by (auto split: prod.splits dest: prefix_length_le)
next
  case (8 kvs hp)
  then show ?case
    by (auto split: prod.splits dest: prefix_length_le)
next
  case (10 x xs hp)
  obtain v hp' where 1: "store_value x hp = (v, hp')" by (cases "store_value x hp")
  obtain vs hp'' where 2: "store_items xs hp' = (vs, hp'')" by (cases "store_items xs hp'")
  from 10(1) 1 have a: "prefix hp hp'" "fresh_from (length hp) v" by auto
  from 10(2) [OF 1 [symmetric]] 2 have b: "prefix hp' hp''" "list_all (fresh_from (length hp')) vs"
    by auto
  have mono: "fresh_from (length hp') w \<Longrightarrow> fresh_from (length hp) w" for w
    using a(1) by (cases w) (auto dest: prefix_length_le)
  from b(2) have "list_all (fresh_from (length hp)) vs"
    by (auto simp: list_all_iff mono)
  with a b 1 2 show ?case by (auto intro: prefix_order.trans)
next
  case (12 key x kvs hp)
  obtain v hp' where 1: "store_value x hp = (v, hp')" by (cases "store_value x hp")
  obtain ps hp'' where 2: "store_props kvs hp' = (ps, hp'')" by (cases "store_props kvs hp'")
  from 12(1) 1 have a: "prefix hp hp'" "fresh_from (length hp) v" by auto
  from 12(2) [OF 1 [symmetric]] 2 have b: "prefix hp' hp''" "list_all (\<lambda>p. fresh_from (length hp') (snd p)) ps"
    by auto
  have mono: "fresh_from (length hp') w \<Longrightarrow> fresh_from (length hp) w" for w
    using a(1) by (cases w) (auto dest: prefix_length_le)
  from b(2) have "list_all (\<lambda>p. fresh_from (length hp) (snd p)) ps"
    by (auto simp: list_all_iff mono)
  with a b 1 2 show ?case by (auto intro: prefix_order.trans)
qed simp_all

lemma fresh_from_mono: "fresh_from n v \<Longrightarrow> m \<le> n \<Longrightarrow> fresh_from m v"
  by (cases v) auto

lemma h_set_prop_frame:
  "prefix hp0 hp \<Longrightarrow> fresh_from (length hp0) target \<Longrightarrow>
   prefix hp0 (snd (h_set_prop target key v hp))"
  by (cases target) (auto simp: prefix_write_cell split: cell.splits)

lemma h_delete_prop_frame:
  "prefix hp0 hp \<Longrightarrow> fresh_from (length hp0) target \<Longrightarrow>
   prefix hp0 (snd (h_delete_prop target key hp))"
  by (cases target) (auto simp: prefix_write_cell split: cell.splits)

lemma h_select_fields_frame:
  "prefix hp0 hp \<Longrightarrow> fresh_from (length hp0) target \<Longrightarrow>
   prefix hp0 (snd (h_select_fields r items target hp))"
proof (induction r items target hp rule: h_select_fields.induct)
  case (1 r target hp)
  then show ?case by simp
next
  case (2 r field rest target hp)
  let ?v = "h_getNestedProperty hp r field HUndefined"
  show ?case
  proof (cases "?v \<noteq> HUndefined")
    case False
    with 2 show ?thesis by simp
  next
    case True
    obtain u hp' where s: "h_set_prop target field ?v hp = (u, hp')"
      by (cases "h_set_prop target field ?v hp")
    from h_set_prop_frame [OF 2(3,4), of field ?v] s have p: "prefix hp0 hp'" by simp
    show ?thesis
    proof (cases u)
      case (Done x)
      from 2(1) [OF refl True s [symmetric] Done p 2(4)] True s Done
      show ?thesis by (simp add: Let_def)
    qed (use True s p in \<open>simp_all add: Let_def\<close>)
  qed
qed simp_all

lemma h_compute_value_frame:
  "prefix hp0 hp \<Longrightarrow> prefix hp0 (snd (h_compute_value h c r hp))"
  using store_extends(1)
  by (auto simp: h_compute_value_def split: outcome.splits prod.splits intro: prefix_order.trans
      dest: sndI)

lemma h_compute_field_frame:
  assumes "prefix hp0 hp" "fresh_from (length hp0) target"
  shows "prefix hp0 (snd (h_compute_field h r target entry hp))"
proof -
  obtain key c where e: "entry = (key, c)" by (cases entry)
  obtain u hp1 where cv: "h_compute_value h c r hp = (u, hp1)" by (cases "h_compute_value h c r hp")
  from h_compute_value_frame [OF assms(1), of h c r] cv have p1: "prefix hp0 hp1" by simp
  show ?thesis
  proof (cases u)
    case (Done v)
    obtain w hp2 where sp: "h_set_prop target key v hp1 = (w, hp2)" by (cases "h_set_prop target key v hp1")
    from h_set_prop_frame [OF p1 assms(2), of key v] sp have p2: "prefix hp0 hp2" by simp
    from h_set_prop_frame [OF p2 assms(2), of key HNull] p2 show ?thesis
      by (cases w) (simp_all add: h_compute_field_def e cv Done sp)
  next
    case (Throws x)
    from h_set_prop_frame [OF p1 assms(2), of key HNull] show ?thesis
      by (simp add: h_compute_field_def e cv Throws)
  next
    case Unsupported
    with p1 show ?thesis by (simp add: h_compute_field_def e cv)
  qed
qed

lemma h_add_computed_frame:
  "prefix hp0 hp \<Longrightarrow> fresh_from (length hp0) target \<Longrightarrow>
   prefix hp0 (snd (h_add_computed h r target entries hp))"
proof (induction entries arbitrary: hp)
  case Nil
  then show ?case by simp
next
  case (Cons entry entries)
  obtain u hp1 where cf: "h_compute_field h r target entry hp = (u, hp1)"
    by (cases "h_compute_field h r target entry hp")
  from h_compute_field_frame [OF Cons.prems, of h r entry] cf have p1: "prefix hp0 hp1" by simp
  from Cons.IH [OF p1 Cons.prems(2)] p1 show ?case
    by (cases u) (simp_all add: cf)
qed

lemma h_rename_field_frame:
  assumes "prefix hp0 hp" "fresh_from (length hp0) target"
  shows "prefix hp0 (snd (h_rename_field h target entry hp))"
proof -
  obtain oldKey newKey where e: "entry = (oldKey, newKey)" by (cases entry)
  let ?sp = "h_set_prop target (js_String h newKey) (h_member hp target oldKey) hp"
  obtain w hp1 where sp: "?sp = (w, hp1)" by (cases ?sp)
  from h_set_prop_frame [OF assms, of "js_String h newKey" "h_member hp target oldKey"] sp
  have p1: "prefix hp0 hp1" by simp
  from h_delete_prop_frame [OF p1 assms(2), of oldKey] p1 assms(1) show ?thesis
    by (cases w) (auto simp: h_rename_field_def e sp split: sum.splits bool.splits)
qed

lemma h_rename_fields_frame:
  "prefix hp0 hp \<Longrightarrow> fresh_from (length hp0) target \<Longrightarrow>
   prefix hp0 (snd (h_rename_fields h target entries hp))"
proof (induction entries arbitrary: hp)
  case Nil
  then show ?case by simp
next
  case (Cons entry entries)
  obtain u hp1 where rf: "h_rename_field h target entry hp = (u, hp1)"
    by (cases "h_rename_field h target entry hp")
  from h_rename_field_frame [OF Cons.prems, of h entry] rf have p1: "prefix hp0 hp1" by simp
  from Cons.IH [OF p1 Cons.prems(2)] p1 show ?case
    by (cases u) (simp_all add: rf)
qed

lemma h_fields_step_frame:
  assumes p: "prefix hp0 hp" and n: "n \<le> length hp" and c: "fresh_from n clone"
  shows "prefix hp0 (snd (h_fields_step r selection clone hp)) \<and>
         (\<forall>res. fst (h_fields_step r selection clone hp) = Done res \<longrightarrow> fresh_from n res)"
proof (cases "truthy selection")
  case False
  with p c show ?thesis by (simp add: h_fields_step_def)
next
  case True
  let ?hp2 = "hp @ [HObj []]"
  let ?s = "length hp"
  have a: "alloc (HObj []) hp = (?s, ?hp2)" by (simp add: alloc_def)
  from p have p2: "prefix hp0 ?hp2" by (auto simp: prefix_def)
  from p have f: "fresh_from (length hp0) (HRef ?s)" by (auto dest: prefix_length_le)
  show ?thesis
  proof (cases selection)
    case (JArr items)
    obtain u hp3 where sf: "h_select_fields r items (HRef ?s) ?hp2 = (u, hp3)"
      by (cases "h_select_fields r items (HRef ?s) ?hp2")
    from h_select_fields_frame [OF p2 f, of r items] sf have "prefix hp0 hp3" by simp
    then show ?thesis
      using n by (cases u) (simp_all add: h_fields_step_def True a JArr sf)
  qed (use True p2 in \<open>simp_all add: h_fields_step_def a\<close>)
qed

lemma h_computed_step_frame:
  "prefix hp0 hp \<Longrightarrow> fresh_from (length hp0) target \<Longrightarrow>
   prefix hp0 (snd (h_computed_step h r target config hp))"
  by (auto simp: h_computed_step_def Let_def h_add_computed_frame split: sum.splits)

lemma h_rename_step_frame:
  "prefix hp0 hp \<Longrightarrow> fresh_from (length hp0) target \<Longrightarrow>
   prefix hp0 (snd (h_rename_step h target config hp))"
  by (auto simp: h_rename_step_def Let_def h_rename_fields_frame split: sum.splits)

text \<open>
  \<open>transformRecord\<close> leaves every cell of the store it starts from as it is, and its
  result is a primitive value or a cell allocated during the call.
\<close>

lemma h_transformRecord_frame:
  assumes p: "prefix hp0 hp"
  shows "prefix hp0 (snd (h_transformRecord h r config hp)) \<and>
         (\<forall>res. fst (h_transformRecord h r config hp) = Done res \<longrightarrow> fresh_from (length hp) res)"
proof -
  obtain clone hp1 where dc: "h_deepClone r hp = (clone, hp1)" by (cases "h_deepClone r hp")
  from store_extends(1) [of hp "value_of hp r"] dc
  have e1: "prefix hp hp1" and fc: "fresh_from (length hp) clone"
    by (simp_all add: h_deepClone_def)
  from p e1 have p1: "prefix hp0 hp1" by (rule prefix_order.trans)
  have le1: "length hp \<le> length hp1" using e1 by (rule prefix_length_le)
  have le0: "length hp0 \<le> length hp" using p by (rule prefix_length_le)
  show ?thesis
  proof (cases "js_get config ''fields''")
    case (Inl e)
    with p1 show ?thesis by (simp add: h_transformRecord_def dc)
  next
    case (Inr selection)
    obtain u3 hp3 where fs: "h_fields_step r selection clone hp1 = (u3, hp3)"
      by (cases "h_fields_step r selection clone hp1")
    from h_fields_step_frame [OF p1 le1 fc, of r selection] fs
    have step: "prefix hp0 hp3" "\<forall>res. u3 = Done res \<longrightarrow> fresh_from (length hp) res"
      by simp_all
    show ?thesis
    proof (cases u3)
      case (Done result)
      with step have fr: "fresh_from (length hp) result" by simp
      then have fr0: "fresh_from (length hp0) result" using le0 by (rule fresh_from_mono)
      obtain u4 hp4 where cs: "h_computed_step h r result config hp3 = (u4, hp4)"
        by (cases "h_computed_step h r result config hp3")
      from h_computed_step_frame [OF step(1) fr0, of h r config] cs have p4: "prefix hp0 hp4" by simp
      obtain u5 hp5 where rs: "h_rename_step h result config hp4 = (u5, hp5)"
        by (cases "h_rename_step h result config hp4")
      from h_rename_step_frame [OF p4 fr0, of h config] rs have p5: "prefix hp0 hp5" by simp
      show ?thesis
        using p4 p5 fr
        by (cases u4; cases u5) (simp_all add: h_transformRecord_def dc Inr fs Done cs rs)
    qed (use step in \<open>simp_all add: h_transformRecord_def dc Inr fs\<close>)
  qed
qed

lemma h_map_records_frame:
  "prefix hp0 hp \<Longrightarrow>
   prefix hp0 (snd (h_map_records h config items hp)) \<and>
   (\<forall>rs. fst (h_map_records h config items hp) = Done rs \<longrightarrow> list_all (fresh_from (length hp)) rs)"
proof (induction items arbitrary: hp)
  case Nil
  then show ?case by simp
next
  case (Cons r items)
  obtain u hp1 where t: "h_transformRecord h r config hp = (u, hp1)"
    by (cases "h_transformRecord h r config hp")
  from h_transformRecord_frame [OF Cons.prems, of h r config] t
  have p1: "prefix hp0 hp1" and f1: "\<forall>res. u = Done res \<longrightarrow> fresh_from (length hp) res" by simp_all
  from h_transformRecord_frame [of hp hp h r config] t
  have le: "length hp \<le> length hp1" by (auto dest: prefix_length_le)
  obtain w hp2 where m: "h_map_records h config items hp1 = (w, hp2)"
    by (cases "h_map_records h config items hp1")
  from Cons.IH [OF p1] m
  have p2: "prefix hp0 hp2" and f2: "\<forall>rs. w = Done rs \<longrightarrow> list_all (fresh_from (length hp1)) rs"
    by simp_all
  have f2': "list_all (fresh_from (length hp)) rs" if "w = Done rs" for rs
    using f2 that le by (auto simp: list_all_iff intro: fresh_from_mono)
  show ?case
    using p1 p2 f1 f2' by (cases u; cases w) (simp_all add: t m)
qed

lemma array_filter_subset: "array_filter p xs = Inr ys \<Longrightarrow> set ys \<subseteq> set xs"
proof (induction xs arbitrary: ys)
  case Nil
  then show ?case by simp
next
  case (Cons x xs)
  from Cons.prems obtain b zs where b: "p x = Inr b" and zs: "array_filter p xs = Inr zs"
    and ys: "ys = (if b then x # zs else zs)"
    by (cases "p x"; cases "array_filter p xs") auto
  from Cons.IH [OF zs] ys show ?case by auto
qed

lemma sort_insert_set: "sort_insert cmp x ys = Inr zs \<Longrightarrow> set zs = insert x (set ys)"
proof (induction ys arbitrary: zs)
  case Nil
  then show ?case by auto
next
  case (Cons y ys)
  from Cons.prems obtain v where v: "cmp x y = Inr v" by (cases "cmp x y") auto
  show ?case
  proof (cases "positive v")
    case True
    with Cons.prems v obtain ws where ws: "sort_insert cmp x ys = Inr ws" and zs: "zs = y # ws"
      by (cases "sort_insert cmp x ys") auto
    from Cons.IH [OF ws] zs show ?thesis by auto
  next
    case False
    with Cons.prems v show ?thesis by auto
  qed
qed

lemma array_sort_set: "array_sort cmp xs = Inr ys \<Longrightarrow> set ys = set xs"
proof (induction xs arbitrary: ys)
  case Nil
  then show ?case by simp
next
  case (Cons x xs)
  from Cons.prems obtain ws where ws: "array_sort cmp xs = Inr ws" and ys: "sort_insert cmp x ws = Inr ys"
    by (cases "array_sort cmp xs") auto
  from Cons.IH [OF ws] sort_insert_set [OF ys] show ?case by simp
qed

lemma array_slice_subset: "set (array_slice h xs s e) \<subseteq> set xs"
proof -
  have "set (take n (drop k xs)) \<subseteq> set xs" for n k
    using set_take_subset [of n "drop k xs"] set_drop_subset [of k xs] by (rule subset_trans)
  then show ?thesis by (simp add: array_slice_def Let_def)
qed

lemma h_array_alloc [simp]: "h_array (hp @ [HArr xs]) (HRef (length hp)) = Some xs"
  by simp

lemma new_array_alloc:
  assumes "h_array hp data = Some old" "set xs \<subseteq> set old"
  shows "new_array hp (hp @ [HArr xs]) data (HRef (length hp))"
proof -
  have "list_all (\<lambda>x. fresh_from (length hp) x \<or>
                       (\<exists>old. h_array hp data = Some old \<and> x \<in> set old)) xs"
    using assms by (auto simp: list_all_iff)
  then show ?thesis
    unfolding new_array_def by (intro exI [of _ "length hp"] exI [of _ xs]) simp
qed

lemma filtered_frame:
  assumes p: "prefix hp0 hp"
    and e: "(case h_array hp data of
        None \<Rightarrow> (Throws err, hp)
      | Some items \<Rightarrow>
          (case array_filter q items of
             Inl e \<Rightarrow> (Throws e, hp)
           | Inr kept \<Rightarrow> (case alloc (HArr kept) hp of (a, hp') \<Rightarrow> (Done (HRef a), hp')))) = (u, hp')"
  shows "prefix hp0 hp' \<and> (\<forall>out. u = Done out \<longrightarrow> new_array hp hp' data out)"
proof (cases "h_array hp data")
  case None
  with p e show ?thesis by auto
next
  case (Some items)
  show ?thesis
  proof (cases "array_filter q items")
    case (Inl x)
    with p e Some show ?thesis by auto
  next
    case (Inr kept)
    from e Some Inr have u: "u = Done (HRef (length hp))" and hp': "hp' = hp @ [HArr kept]"
      by (auto simp: alloc_def)
    from p have "prefix hp0 hp'" by (auto simp: prefix_def hp')
    moreover from new_array_alloc [OF Some array_filter_subset [OF Inr]]
    have "new_array hp hp' data (HRef (length hp))" by (simp add: hp')
    ultimately show ?thesis by (simp add: u)
  qed
qed

lemma h_IncludeRule_frame:
  assumes "prefix hp0 hp" "h_IncludeRule_execute data config hp = (u, hp')"
  shows "prefix hp0 hp' \<and> (\<forall>out. u = Done out \<longrightarrow> new_array hp hp' data out)"
  using filtered_frame [OF assms(1), where data = data
      and err = "Error ''Include rule requires data to be an array''"
      and q = "\<lambda>r. matchesRecord (value_of hp r) config" and u = u and hp' = hp'] assms(2)
  unfolding h_IncludeRule_execute_def by simp

lemma h_ExcludeRule_frame:
  assumes "prefix hp0 hp" "h_ExcludeRule_execute data config hp = (u, hp')"
  shows "prefix hp0 hp' \<and> (\<forall>out. u = Done out \<longrightarrow> new_array hp hp' data out)"
  using filtered_frame [OF assms(1), where data = data
      and err = "Error ''Exclude rule requires data to be an array''"
      and q = "\<lambda>r. map_sum id Not (matchesRecord (value_of hp r) config)" and u = u and hp' = hp'] assms(2)
  unfolding h_ExcludeRule_execute_def by simp

lemma h_SortRule_frame:
  assumes p: "prefix hp0 hp" and e: "h_SortRule_execute h data config hp = (u, hp')"
  shows "prefix hp0 hp' \<and> (\<forall>out. u = Done out \<longrightarrow> new_array hp hp' data out)"
proof (cases "h_array hp data")
  case None
  with p e show ?thesis by (auto simp: h_SortRule_execute_def)
next
  case (Some items)
  let ?hp1 = "hp @ [HArr items]"
  let ?cmp = "\<lambda>x y. sortCompare (multiKeyComparator h (sort_keys config)) (value_of ?hp1 x) (value_of ?hp1 y)"
  from p have p1: "prefix hp0 ?hp1" by (auto simp: prefix_def)
  from p have le: "length hp0 \<le> length hp" by (rule prefix_length_le)
  show ?thesis
  proof (cases "array_sort ?cmp items")
    case (Inl err)
    with p1 e Some show ?thesis by (auto simp: h_SortRule_execute_def alloc_def)
  next
    case (Inr sorted_items)
    from e Some Inr have u: "u = Done (HRef (length hp))"
      and hp': "hp' = write_cell (length hp) (HArr sorted_items) ?hp1"
      by (auto simp: h_SortRule_execute_def alloc_def)
    have w: "hp' = hp @ [HArr sorted_items]"
      by (simp add: hp' write_cell_def)
    from prefix_write_cell [OF p1 le] have "prefix hp0 hp'" by (simp add: hp')
    moreover from array_sort_set [OF Inr] have "set sorted_items \<subseteq> set items" by simp
    from new_array_alloc [OF Some this] have "new_array hp hp' data (HRef (length hp))"
      by (simp add: w)
    ultimately show ?thesis by (simp add: u)
  qed
qed

lemma h_LimitRule_frame:
  assumes p: "prefix hp0 hp" and e: "h_LimitRule_execute h data config hp = (u, hp')"
  shows "prefix hp0 hp' \<and> (\<forall>out. u = Done out \<longrightarrow> new_array hp hp' data out)"
proof (cases "h_array hp data")
  case None
  with p e show ?thesis by (auto simp: h_LimitRule_execute_def)
next
  case (Some items)
  let ?args = "if typeof config = ''number'' then Inr (config, num 0)
                 else (case js_get config ''count'' of
                         Inl e \<Rightarrow> Inl e
                       | Inr cnt \<Rightarrow>
                           (case js_get config ''offset'' of
                              Inl e \<Rightarrow> Inl e
                            | Inr off \<Rightarrow> Inr (cnt, if truthy off then off else num 0)))"
  show ?thesis
  proof (cases ?args)
    case (Inl x)
    from e have "u = Throws x \<and> hp' = hp"
      unfolding h_LimitRule_execute_def Some Inl by simp
    with p show ?thesis by simp
  next
    case (Inr pr)
    obtain cnt off where pr: "pr = (cnt, off)" by (cases pr)
    let ?xs = "skip h off items"
    let ?ys = "take_first h cnt ?xs"
    from e have u: "u = Done (HRef (Suc (length hp)))" and hp': "hp' = hp @ [HArr ?xs, HArr ?ys]"
      unfolding h_LimitRule_execute_def Some Inr pr by (simp_all add: alloc_def)
    have sub: "set ?ys \<subseteq> set items"
      using array_slice_subset [of h ?xs "num 0" cnt] array_slice_subset [of h items off JUndefined]
      by (auto simp: take_first_def skip_def)
    have "new_array hp hp' data (HRef (Suc (length hp)))"
      using sub Some unfolding new_array_def hp'
      by (auto simp: list_all_iff nth_append)
    moreover from p have "prefix hp0 hp'" by (auto simp: prefix_def hp')
    ultimately show ?thesis by (simp add: u)
  qed
qed

lemma h_TransformRule_frame:
  assumes p: "prefix hp0 hp" and e: "h_TransformRule_execute h data config hp = (u, hp')"
  shows "prefix hp0 hp' \<and> (\<forall>out. u = Done out \<longrightarrow> new_array hp hp' data out)"
proof (cases "h_array hp data")
  case None
  with p e show ?thesis by (auto simp: h_TransformRule_execute_def)
next
  case (Some items)
  obtain w hp1 where m: "h_map_records h config items hp = (w, hp1)"
    by (cases "h_map_records h config items hp")
  from h_map_records_frame [OF p, of h config items] m
  have p1: "prefix hp0 hp1" and f: "\<forall>rs. w = Done rs \<longrightarrow> list_all (fresh_from (length hp)) rs"
    by simp_all
  from h_map_records_frame [of hp hp h config items] m
  have le: "length hp \<le> length hp1" by (auto dest: prefix_length_le)
  show ?thesis
  proof (cases w)
    case (Done rs)
    from e Some m Done have u: "u = Done (HRef (length hp1))" and hp': "hp' = hp1 @ [HArr rs]"
      by (auto simp: h_TransformRule_execute_def alloc_def)
    from f Done have "list_all (fresh_from (length hp)) rs" by simp
    then have "list_all (\<lambda>x. fresh_from (length hp) x \<or>
                       (\<exists>old. h_array hp data = Some old \<and> x \<in> set old)) rs"
      by (auto simp: list_all_iff)
    then have "new_array hp hp' data (HRef (length hp1))"
      unfolding new_array_def hp' using le
      by (intro exI [of _ "length hp1"] exI [of _ rs]) simp
    moreover from p1 have "prefix hp0 hp'" by (auto simp: prefix_def hp')
    ultimately show ?thesis by (simp add: u)
  next
    case (Throws x)
    with e Some m p1 show ?thesis by (auto simp: h_TransformRule_execute_def)
  next
    case Unsupported
    with e Some m p1 show ?thesis by (auto simp: h_TransformRule_execute_def)
  qed
qed

lemma h_execute_frame:
  assumes p: "prefix hp0 hp" and e: "h_execute h r data config hp = (u, hp')"
  shows "prefix hp0 hp' \<and> (\<forall>out. u = Done out \<longrightarrow> new_array hp hp' data out)"
proof (cases r)
  case IncludeRule
  with e have "h_IncludeRule_execute data config hp = (u, hp')" by simp
  with p show ?thesis by (rule h_IncludeRule_frame)
next
  case ExcludeRule
  with e have "h_ExcludeRule_execute data config hp = (u, hp')" by simp
  with p show ?thesis by (rule h_ExcludeRule_frame)
next
  case SortRule
  with e have "h_SortRule_execute h data config hp = (u, hp')" by simp
  with p show ?thesis by (rule h_SortRule_frame)
next
  case LimitRule
  with e have "h_LimitRule_execute h data config hp = (u, hp')" by simp
  with p show ?thesis by (rule h_LimitRule_frame)
next
  case TransformRule
  with e have "h_TransformRule_execute h data config hp = (u, hp')" by simp
  with p show ?thesis by (rule h_TransformRule_frame)
next
  case (BaseRule name type)
  with p e show ?thesis by auto
qed

lemma h_executeRule_frame:
  assumes p: "prefix hp0 hp" and e: "h_executeRule h rules type data config hp = (u, hp')"
  shows "prefix hp0 hp' \<and> (\<forall>out. u = Done out \<longrightarrow> new_array hp hp' data out)"
proof (cases "getRule rules type")
  case None
  with p e show ?thesis by (auto simp: h_executeRule_def)
next
  case (Some r)
  show ?thesis
  proof (cases "isValid (validate r config)")
    case True
    with e Some have "h_execute h r data config hp = (u, hp')" by (simp add: h_executeRule_def)
    with p show ?thesis by (rule h_execute_frame)
  next
    case False
    with p e Some show ?thesis by (auto simp: h_executeRule_def)
  qed
qed

lemma value_at_prefix:
  "prefix hp hp' \<Longrightarrow> a < length hp \<Longrightarrow> value_at hp' a = value_at hp a"
proof (induction a rule: less_induct)
  case (less a)
  from less(2) obtain zs where hp': "hp' = hp @ zs" by (auto simp: prefix_def)
  from less(3) have c: "hp' ! a = hp ! a" and l: "a < length hp'"
    by (simp_all add: hp' nth_append)
  have r: "(case v of HRef b \<Rightarrow> if b < a then value_at hp' b else JUndefined | _ \<Rightarrow> prim_value v) =
           (case v of HRef b \<Rightarrow> if b < a then value_at hp b else JUndefined | _ \<Rightarrow> prim_value v)" for v
    using less(1) less(2) less(3) by (cases v) auto
  show ?case
    by (subst value_at.simps, subst (2) value_at.simps) (simp add: c l less(3) r split: cell.splits)
qed

lemma new_records_deepClone:
  assumes "h_array hp data = Some items" and "h_deepClone data hp = (out, hp')"
  shows "prefix hp hp' \<and> new_records (length hp) hp' out"
proof -
  from assms(1) obtain a where d: "data = HRef a" and a: "a < length hp" and c: "hp ! a = HArr items"
    by (cases data) (auto split: if_splits cell.splits)
  obtain xs where v: "value_of hp data = JArr xs"
    using a c by (auto simp: d value_at.simps)
  obtain vs hp1 where s: "store_items xs hp = (vs, hp1)" by (cases "store_items xs hp")
  from store_extends(2) [of hp xs] s have p: "prefix hp hp1" and f: "list_all (fresh_from (length hp)) vs"
    by simp_all
  from assms(2) v s have out: "out = HRef (length hp1)" and hp': "hp' = hp1 @ [HArr vs]"
    by (simp_all add: h_deepClone_def)
  from p have "length hp \<le> length hp1" by (rule prefix_length_le)
  with f have "new_records (length hp) hp' out"
    unfolding new_records_def out hp'
    by (intro exI [of _ "length hp1"] exI [of _ vs]) simp
  moreover from p have "prefix hp hp'" by (auto simp: prefix_def hp')
  ultimately show ?thesis by simp
qed

lemma new_records_step:
  assumes r: "new_records n hp result" and n: "n \<le> length hp" and p: "prefix hp hp'"
    and a: "new_array hp hp' result out"
  shows "new_records n hp' out"
proof -
  from r obtain b old where res: "result = HRef b" "n \<le> b" "h_array hp result = Some old"
    and old: "list_all (fresh_from n) old"
    by (auto simp: new_records_def)
  from a obtain c items where out: "out = HRef c" "length hp \<le> c" "h_array hp' out = Some items"
    and items: "list_all (\<lambda>x. fresh_from (length hp) x \<or>
                       (\<exists>old. h_array hp result = Some old \<and> x \<in> set old)) items"
    by (auto simp: new_array_def)
  have "fresh_from n x" if "x \<in> set items" for x
  proof -
    from items that have "fresh_from (length hp) x \<or> x \<in> set old"
      by (auto simp: list_all_iff res(3))
    then show ?thesis
    proof
      assume "fresh_from (length hp) x"
      then show ?thesis using n by (rule fresh_from_mono)
    next
      assume "x \<in> set old"
      with old show ?thesis by (simp add: list_all_iff)
    qed
  qed
  then have "list_all (fresh_from n) items" by (simp add: list_all_iff)
  with out n show ?thesis
    unfolding new_records_def by (intro exI [of _ c] exI [of _ items]) simp
qed

lemma h_run_rules_frame:
  "prefix hp0 hp \<Longrightarrow> n \<le> length hp \<Longrightarrow> new_records n hp result \<Longrightarrow>
   h_run_rules h rules entries result hp = (u, hp') \<Longrightarrow>
   prefix hp0 hp' \<and> (\<forall>out. u = Done out \<longrightarrow> new_records n hp' out)"
proof (induction entries arbitrary: result hp)
  case Nil
  then show ?case by auto
next
  case (Cons entry rest)
  obtain type config where entry: "entry = (type, config)" by (cases entry)
  obtain w hp1 where e: "h_executeRule h rules type result config hp = (w, hp1)"
    by (cases "h_executeRule h rules type result config hp")
  from h_executeRule_frame [OF Cons(2) e]
  have p1: "prefix hp0 hp1" and a: "\<forall>out. w = Done out \<longrightarrow> new_array hp hp1 result out"
    by simp_all
  from h_executeRule_frame [OF prefix_order.refl e] have pp: "prefix hp hp1" by simp
  show ?case
  proof (cases w)
    case (Done result')
    with a have na: "new_array hp hp1 result result'" by simp
    have nr: "new_records n hp1 result'"
      using Cons(4) Cons(3) pp na by (rule new_records_step)
    from pp Cons(3) have n1: "n \<le> length hp1" by (auto dest: prefix_length_le)
    from Cons(5) e Done have "h_run_rules h rules rest result' hp1 = (u, hp')"
      by (simp add: entry)
    with p1 n1 nr show ?thesis by (rule Cons.IH)
  next
    case (Throws x)
    with Cons(5) e p1 show ?thesis by (auto simp: entry)
  next
    case Unsupported
    with Cons(5) e p1 show ?thesis by (auto simp: entry)
  qed
qed

lemma h_processData_frame:
  assumes e: "h_processData h rules data condition hp = (u, hp')"
  shows "prefix hp hp' \<and> (\<forall>out. u = Done out \<longrightarrow> new_records (length hp) hp' out)"
proof -
  have empty: "prefix hp (hp1 @ [HArr []]) \<and> new_records (length hp) (hp1 @ [HArr []]) (HRef (length hp1))"
    if "prefix hp hp1" for hp1
  proof -
    from that have "length hp \<le> length hp1" by (rule prefix_length_le)
    then have "new_records (length hp) (hp1 @ [HArr []]) (HRef (length hp1))"
      unfolding new_records_def by (intro exI [of _ "length hp1"] exI [of _ "[]"]) simp
    with that show ?thesis by (auto simp: prefix_def)
  qed
  show ?thesis
  proof (cases "h_array hp data = None \<or> \<not> truthy condition \<or> typeof condition \<noteq> ''object''")
    case True
    with e have "u = Done (HRef (length hp))" "hp' = hp @ [HArr []]"
      by (auto simp: h_processData_def alloc_def split: if_splits)
    with empty [of hp] show ?thesis by simp
  next
    case False
    then obtain items where items: "h_array hp data = Some items" by auto
    obtain result hp1 where c: "h_deepClone data hp = (result, hp1)" by (cases "h_deepClone data hp")
    from new_records_deepClone [OF items c]
    have p1: "prefix hp hp1" and nr: "new_records (length hp) hp1 result" by simp_all
    from p1 have n1: "length hp \<le> length hp1" by (rule prefix_length_le)
    show ?thesis
    proof (cases "ruleEntries rules condition")
      case (Inl err)
      with e False c items have "u = Done (HRef (length hp1))" "hp' = hp1 @ [HArr []]"
        by (auto simp: h_processData_def alloc_def)
      with empty [OF p1] show ?thesis by simp
    next
      case (Inr entries)
      obtain w hp2 where r: "h_run_rules h rules entries result hp1 = (w, hp2)"
        by (cases "h_run_rules h rules entries result hp1")
      from h_run_rules_frame [OF p1 n1 nr r]
      have p2: "prefix hp hp2" and f: "\<forall>out. w = Done out \<longrightarrow> new_records (length hp) hp2 out"
        by simp_all
      show ?thesis
      proof (cases w)
        case (Done out)
        with e False c items Inr r have "u = Done out" "hp' = hp2"
          by (auto simp: h_processData_def)
        with p2 f Done show ?thesis by simp
      next
        case (Throws x)
        with e False c items Inr r have "u = Done (HRef (length hp2))" "hp' = hp2 @ [HArr []]"
          by (auto simp: h_processData_def alloc_def)
        with empty [OF p2] show ?thesis by simp
      next
        case Unsupported
        with e False c items Inr r have "u = Unsupported" "hp' = hp2"
          by (auto simp: h_processData_def)
        with p2 show ?thesis by simp
      qed
    qed
  qed
qed

lemma h_TransformRule_new_records:
  assumes e: "h_TransformRule_execute h data config hp = (Done out, hp')"
  shows "new_records (length hp) hp' out"
proof (cases "h_array hp data")
  case None
  with e show ?thesis by (auto simp: h_TransformRule_execute_def)
next
  case (Some items)
  obtain w hp1 where m: "h_map_records h config items hp = (w, hp1)"
    by (cases "h_map_records h config items hp")
  from h_map_records_frame [of hp hp h config items] m
  have p1: "prefix hp hp1" and f: "\<forall>rs. w = Done rs \<longrightarrow> list_all (fresh_from (length hp)) rs"
    by simp_all
  from p1 have le: "length hp \<le> length hp1" by (rule prefix_length_le)
  from e Some m obtain rs where w: "w = Done rs" and out: "out = HRef (length hp1)"
    and hp': "hp' = hp1 @ [HArr rs]"
    by (cases w) (auto simp: h_TransformRule_execute_def alloc_def)
  from f w have "list_all (fresh_from (length hp)) rs" by simp
  with le show ?thesis
    unfolding new_records_def out hp'
    by (intro exI [of _ "length hp1"] exI [of _ rs]) simp
qed

lemma sample_store_cells:
  "sample_ref = HRef 3"
  "sample_store =
     [HObj [(''name'', HStr ''John''), (''email'', HStr ''john2@mail.com''),
            (''age'', HNum (Fin 30)), (''status'', HStr ''active'')],
      HObj [(''name'', HStr ''John''), (''email'', HStr ''john1@mail.com''),
            (''age'', HNum (Fin 25)), (''status'', HStr ''inactive'')],
      HObj [(''name'', HStr ''Jane''), (''email'', HStr ''jane@mail.com''),
            (''age'', HNum (Fin 28)), (''status'', HStr ''active'')],
      HArr [HRef 0, HRef 1, HRef 2]]"
  by (simp_all add: sample_ref_def sample_store_def sampleData_def num_def)

lemma sample_store_value: "value_at sample_store 3 = JArr sampleData"
  by (simp add: sample_store_cells value_at.simps sampleData_def num_def)

lemma sample_include_store:
  "h_execute sample_host IncludeRule sample_ref (JObj [(''status'', JStr ''active'')]) sample_store =
     (Done (HRef 4), sample_store @ [HArr [HRef 0, HRef 2]])"
  by code_simp

lemma sample_transform_store:
  "fst (h_execute sample_host TransformRule sample_ref (JObj [(''fields'', JArr [JStr ''name''])])
          sample_store) = Done (HRef 10)"
  by code_simp

lemma sample_process_store:
  "fst (h_processData sample_host (autoRegisterRules []) sample_ref
          (JObj [(''include'', JArr [JObj [(''status'', JStr ''active'')]])]) sample_store) =
     Done (HRef 8)"
  by code_simp




end
